theory Spec2Isabelle
  imports Main "HOL-Library.Word"
begin

section \<open>JavaScript values and string primitives used by worker.js\<close>

text \<open>
  Strings are lists of code units; the model takes the code units of the Latin-1 range
  (\<open>char\<close>), which covers the output of \<^verbatim>\<open>netstat -ano\<close> and the endpoint texts.
  A JavaScript value that may be \<^verbatim>\<open>undefined\<close> (an array read, a record field) is a
  \<open>string option\<close>, \<open>None\<close> being \<^verbatim>\<open>undefined\<close>. An exception is a value of
  \<open>js_error\<close>: \<open>Error m\<close> is \<^verbatim>\<open>new Error(m)\<close> (or the error object an external
  call hands over, with its message), \<open>TypeError\<close> is what a method call on
  \<^verbatim>\<open>undefined\<close> throws.
\<close>

datatype js_error = Error string | TypeError

type_synonym jsval = "string option"

text \<open>White space of \<^verbatim>\<open>String.prototype.trim\<close> and of the regular expression class
  \<^verbatim>\<open>\s\<close> (the same set): TAB, LF, VT, FF, CR, space and NBSP below code unit 256.\<close>

definition is_space :: "char \<Rightarrow> bool" where
  "is_space c =
     (c = CHR 0x09 \<or> c = CHR 0x0A \<or> c = CHR 0x0B \<or> c = CHR 0x0C \<or> c = CHR 0x0D
      \<or> c = CHR '' '' \<or> c = CHR 0xA0)"

definition trim :: "string \<Rightarrow> string" where
  "trim s = rev (dropWhile is_space (rev (dropWhile is_space s)))"

text \<open>Puts a code unit in front of the first piece of a split.\<close>

fun cons_first :: "char \<Rightarrow> string list \<Rightarrow> string list" where
  "cons_first c [] = [[c]]"
| "cons_first c (l # ls) = (c # l) # ls"

text \<open>\<^verbatim>\<open>s.split(/\r?\n/)\<close>: a separator is LF, or CR directly followed by LF.\<close>

fun split_lines :: "string \<Rightarrow> string list" where
  "split_lines [] = [[]]"
| "split_lines [c] = (if c = CHR 0x0A then [[], []] else [[c]])"
| "split_lines (c # d # cs) =
     (if c = CHR 0x0A then [] # split_lines (d # cs)
      else if c = CHR 0x0D \<and> d = CHR 0x0A then [] # split_lines cs
      else cons_first c (split_lines (d # cs)))"

text \<open>\<^verbatim>\<open>s.split(/\s+/)\<close>: a separator is a maximal run of white space; white space at
  either end leaves an empty piece there, as in JavaScript.\<close>

function split_ws :: "string \<Rightarrow> string list" where
  "split_ws [] = [[]]"
| "split_ws (c # cs) =
     (if is_space c then [] # split_ws (dropWhile is_space cs)
      else cons_first c (split_ws cs))"
  by pat_completeness auto
termination
  by (relation "measure length") (auto simp: length_dropWhile_le less_Suc_eq_le)

text \<open>\<^verbatim>\<open>parts[k]\<close>: reading past the end of an array gives \<^verbatim>\<open>undefined\<close>.\<close>

definition js_index :: "string list \<Rightarrow> nat \<Rightarrow> jsval" where
  "js_index xs k = (if k < length xs then Some (xs ! k) else None)"

text \<open>\<^verbatim>\<open>v || ''\<close> on a string or \<^verbatim>\<open>undefined\<close>.\<close>

definition or_empty :: "jsval \<Rightarrow> string" where
  "or_empty v = (case v of None \<Rightarrow> [] | Some s \<Rightarrow> s)"

text \<open>A value inside a template literal: \<^verbatim>\<open>`${v}`\<close>.\<close>

definition js_str :: "jsval \<Rightarrow> string" where
  "js_str v = (case v of None \<Rightarrow> ''undefined'' | Some s \<Rightarrow> s)"

text \<open>\<^verbatim>\<open>text.lastIndexOf(c)\<close>: the scan keeps the last position seen, \<open>-1\<close> when none.\<close>

fun last_index_from :: "char \<Rightarrow> string \<Rightarrow> nat \<Rightarrow> int \<Rightarrow> int" where
  "last_index_from c [] k best = best"
| "last_index_from c (x # xs) k best =
     last_index_from c xs (Suc k) (if x = c then int k else best)"

definition lastIndexOf :: "string \<Rightarrow> char \<Rightarrow> int" where
  "lastIndexOf s c = last_index_from c s 0 (- 1)"

text \<open>\<^verbatim>\<open>s.startsWith(p)\<close> and \<^verbatim>\<open>s.includes(sub)\<close>.\<close>

fun startsWith :: "string \<Rightarrow> string \<Rightarrow> bool" where
  "startsWith s [] = True"
| "startsWith [] (p # ps) = False"
| "startsWith (c # cs) (p # ps) = (c = p \<and> startsWith cs ps)"

fun str_includes :: "string \<Rightarrow> string \<Rightarrow> bool" where
  "str_includes [] sub = (sub = [])"
| "str_includes (c # cs) sub = (startsWith (c # cs) sub \<or> str_includes cs sub)"

text \<open>Letter case of the ASCII letters. \<^verbatim>\<open>toLowerCase\<close>, and the canonicalisation a
  regular expression with the \<^verbatim>\<open>i\<close> flag applies, also change letters outside ASCII,
  but never map one of them to an ASCII letter; the texts compared against here
  (\<^verbatim>\<open>opc.tcp://\<close>, \<^verbatim>\<open>LISTENING\<close>) are ASCII, so only the ASCII part decides.\<close>

definition ascii_upper :: "char \<Rightarrow> char" where
  "ascii_upper c =
     (case map_of (zip ''abcdefghijklmnopqrstuvwxyz'' ''ABCDEFGHIJKLMNOPQRSTUVWXYZ'') c of
        Some u \<Rightarrow> u | None \<Rightarrow> c)"

definition ascii_lower :: "char \<Rightarrow> char" where
  "ascii_lower c =
     (case map_of (zip ''ABCDEFGHIJKLMNOPQRSTUVWXYZ'' ''abcdefghijklmnopqrstuvwxyz'') c of
        Some l \<Rightarrow> l | None \<Rightarrow> c)"

text \<open>\<^verbatim>\<open>/PAT/i.test(s)\<close> for a pattern of plain letters: the pattern matches at some
  position of \<open>s\<close>, each code unit compared after canonicalisation.\<close>

fun match_ci_at :: "string \<Rightarrow> string \<Rightarrow> bool" where
  "match_ci_at [] s = True"
| "match_ci_at (p # ps) [] = False"
| "match_ci_at (p # ps) (c # cs) = (ascii_upper c = ascii_upper p \<and> match_ci_at ps cs)"

fun regex_test_ci :: "string \<Rightarrow> string \<Rightarrow> bool" where
  "regex_test_ci pat [] = match_ci_at pat []"
| "regex_test_ci pat (c # cs) = (match_ci_at pat (c # cs) \<or> regex_test_ci pat cs)"

section \<open>Socket Table Snapshot: getListeningPorts and parseAddressPort\<close>

text \<open>\<^verbatim>\<open>parseAddressPort(text)\<close> on a string: splits at the last colon; without a
  colon the port is the empty string.\<close>

definition addr_port :: "string \<Rightarrow> string \<times> string" where
  "addr_port t =
     (let idx = lastIndexOf t (CHR '':'') in
      if idx = - 1 then (t, [])
      else (take (nat idx) t, drop (nat idx + 1) t))"

text \<open>Called on \<^verbatim>\<open>undefined\<close>, \<^verbatim>\<open>text.lastIndexOf\<close> throws.\<close>

definition parseAddressPort :: "jsval \<Rightarrow> js_error + (string \<times> string)" where
  "parseAddressPort text =
     (case text of None \<Rightarrow> Inl TypeError | Some t \<Rightarrow> Inr (addr_port t))"

text \<open>The callback of \<^verbatim>\<open>exec('netstat -ano', ...)\<close> receives an error or the standard
  output.\<close>

datatype exec_result = ExecFailed string | ExecOk string

record listener =
  proto :: jsval
  localAddress :: jsval
  localPort :: jsval
  pid :: jsval

text \<open>\<^verbatim>\<open>stdout.split(/\r?\n/).slice(4).filter(l => l.trim())\<close>\<close>

definition data_lines :: "string \<Rightarrow> string list" where
  "data_lines stdout = filter (\<lambda>l. trim l \<noteq> []) (drop 4 (split_lines stdout))"

text \<open>\<^verbatim>\<open>line.trim().split(/\s+/)\<close>\<close>

definition columns :: "string \<Rightarrow> string list" where
  "columns line = split_ws (trim line)"

text \<open>\<^verbatim>\<open>/LISTENING/i.test(state) || state === 'LISTEN'\<close>\<close>

definition is_listening_state :: "string \<Rightarrow> bool" where
  "is_listening_state state = (regex_test_ci ''LISTENING'' state \<or> state = ''LISTEN'')"

text \<open>The \<^verbatim>\<open>for (const line of lines)\<close> loop of getListeningPorts, \<open>listeners\<close> being
  the array it pushes to.\<close>

fun listeners_loop :: "string list \<Rightarrow> listener list \<Rightarrow> js_error + listener list" where
  "listeners_loop [] listeners = Inr listeners"
| "listeners_loop (line # lines) listeners =
     (let parts = columns line in
      if 5 \<le> length parts then
        (let proto = js_index parts 0;
             local = js_index parts 1;
             state = or_empty (js_index parts 3);
             pid = or_empty (js_index parts 4)
         in if is_listening_state state then
              (case parseAddressPort local of
                 Inl e \<Rightarrow> Inl e
               | Inr (addr, port) \<Rightarrow>
                   listeners_loop lines
                     (listeners @ [\<lparr>proto = proto, localAddress = Some addr,
                                    localPort = Some port, pid = Some pid\<rparr>]))
            else listeners_loop lines listeners)
      else listeners_loop lines listeners)"

text \<open>getListeningPorts, as a function of what \<^verbatim>\<open>exec\<close> hands to the callback: the
  promise is rejected with the error, or resolved with the listeners.\<close>

definition getListeningPorts :: "exec_result \<Rightarrow> js_error + listener list" where
  "getListeningPorts r =
     (case r of
        ExecFailed m \<Rightarrow> Inl (Error m)
      | ExecOk stdout \<Rightarrow> listeners_loop (data_lines stdout) [])"

section \<open>Port Diff Engine: the comparison of the two snapshots\<close>

text \<open>\<^verbatim>\<open>new Set(xs)\<close>, read back with \<^verbatim>\<open>[...set]\<close>: insertion order, a value that is
  already in the set is not added again.\<close>

fun js_Set_add :: "string list \<Rightarrow> string list \<Rightarrow> string list" where
  "js_Set_add acc [] = acc"
| "js_Set_add acc (x # xs) = js_Set_add (if x \<in> set acc then acc else acc @ [x]) xs"

definition js_Set :: "string list \<Rightarrow> string list" where
  "js_Set xs = js_Set_add [] xs"

text \<open>\<^verbatim>\<open>`${l.localAddress}:${l.localPort}`\<close>\<close>

definition port_key :: "'a listener_scheme \<Rightarrow> string" where
  "port_key l = js_str (localAddress l) @ '':'' @ js_str (localPort l)"

record port_comparison =
  newPorts :: "string list"
  removedPorts :: "string list"
  netChange :: int

text \<open>The \<^verbatim>\<open>comparison\<close> object of the post-subscription port summary
  (\<^verbatim>\<open>portCount\<close> is \<^verbatim>\<open>afterListeners.length\<close>).\<close>

definition comparison :: "listener list \<Rightarrow> listener list \<Rightarrow> port_comparison" where
  "comparison beforeListeners afterListeners =
     (let portCount = int (length afterListeners);
          baselinePorts = js_Set (map port_key beforeListeners);
          afterPorts = js_Set (map port_key afterListeners)
      in \<lparr>newPorts = filter (\<lambda>p. p \<notin> set baselinePorts) afterPorts,
          removedPorts = filter (\<lambda>p. p \<notin> set afterPorts) baselinePorts,
          netChange = portCount - int (length beforeListeners)\<rparr>)"

section \<open>Endpoint normalization: normalizeEndpoint\<close>

text \<open>The \<^verbatim>\<open>port\<close> argument: absent, a number, or the digits taken from the server
  text. The number is a TCP port, an unsigned integer of 16 bits: the form
  (renderer.js) reads the field with \<^verbatim>\<open>parseInt\<close> and sends 4840 in its place when
  the value is not a number from 1 to 65535; 0 is the one number of the type that
  \<^verbatim>\<open>!port\<close> holds of.
  \<open>port_missing\<close> is \<^verbatim>\<open>!port\<close>, \<open>port_text\<close> is \<^verbatim>\<open>`${port}`\<close>, which for an integer
  of this size is its decimal digits. The server argument
  is a string; \<^verbatim>\<open>!server\<close> holds of the empty string (and of \<^verbatim>\<open>null\<close> and
  \<^verbatim>\<open>undefined\<close>, which the model does not tell apart from it).\<close>

datatype port_arg = PortUnset | PortNum "16 word" | PortText string

definition port_missing :: "port_arg \<Rightarrow> bool" where
  "port_missing p =
     (case p of PortUnset \<Rightarrow> True | PortNum n \<Rightarrow> n = 0 | PortText t \<Rightarrow> t = [])"

definition digit_char :: "nat \<Rightarrow> char" where
  "digit_char d = ''0123456789'' ! d"

fun show_nat :: "nat \<Rightarrow> string" where
  "show_nat n = (if n < 10 then [digit_char n] else show_nat (n div 10) @ [digit_char (n mod 10)])"

declare show_nat.simps [simp del]

definition port_text :: "port_arg \<Rightarrow> string" where
  "port_text p =
     (case p of PortUnset \<Rightarrow> ''undefined'' | PortNum n \<Rightarrow> show_nat (unat n)
      | PortText t \<Rightarrow> t)"

definition is_digit :: "char \<Rightarrow> bool" where
  "is_digit c = (c \<in> set ''0123456789'')"

text \<open>The characters the regular expression dot does not match (below code unit 256).\<close>

definition is_line_terminator :: "char \<Rightarrow> bool" where
  "is_line_terminator c = (c = CHR 0x0A \<or> c = CHR 0x0D)"

text \<open>\<^verbatim>\<open>s.match(/^(.+?):(\d+)$/)\<close>: the digits run to the end, so the colon before
  them is the last colon of \<open>s\<close>; the host before it is not empty and has no line
  terminator. The result is the two groups.\<close>

definition host_port_match :: "string \<Rightarrow> (string \<times> string) option" where
  "host_port_match s =
     (let idx = lastIndexOf s (CHR '':'') in
      if idx < 1 then None
      else (let h = take (nat idx) s; d = drop (nat idx + 1) s in
            if d \<noteq> [] \<and> list_all is_digit d \<and> list_all (\<lambda>c. \<not> is_line_terminator c) h
            then Some (h, d) else None))"

definition normalizeEndpoint :: "string \<Rightarrow> port_arg \<Rightarrow> js_error + string" where
  "normalizeEndpoint server port =
     (if server = [] then Inl (Error ''server missing'')
      else
        (let server1 = trim server;
             server2 = (if startsWith (map ascii_lower server1) ''opc.tcp://''
                        then drop (length ''opc.tcp://'') server1 else server1);
             hostPortMatch = host_port_match server2;
             server3 = (case hostPortMatch of Some (h, d) \<Rightarrow> h | None \<Rightarrow> server2);
             port1 = (case hostPortMatch of
                        Some (h, d) \<Rightarrow> (if port_missing port then PortText d else port)
                      | None \<Rightarrow> port)
         in if port_missing port1 then Inl (Error ''port missing'')
            else Inr (''opc.tcp://'' @ server3 @ '':'' @ port_text port1)))"

section \<open>Connection Watcher: monitorConnectionAttempts\<close>

record attempt = listener +
  timestamp :: string
  remoteAddress :: jsval
  remotePort :: jsval
  state :: jsval

text \<open>\<^verbatim>\<open>serverIp && remote.includes(serverIp)\<close>: a \<^verbatim>\<open>null\<close> or empty target makes the
  test false before \<open>remote\<close> is looked at.\<close>

definition remote_matches :: "jsval \<Rightarrow> jsval \<Rightarrow> js_error + bool" where
  "remote_matches serverIp remote =
     (case serverIp of
        None \<Rightarrow> Inr False
      | Some ip \<Rightarrow>
          if ip = [] then Inr False
          else (case remote of None \<Rightarrow> Inl TypeError | Some r \<Rightarrow> Inr (str_includes r ip)))"

text \<open>The \<^verbatim>\<open>for (const line of lines)\<close> loop inside the callback of one poll; \<open>found\<close>
  is the array shared by all polls, \<open>now\<close> the clock reading
  \<^verbatim>\<open>new Date().toISOString()\<close>. The source reads the clock for every row it records;
  the model takes one reading for the whole callback.\<close>

fun attempts_loop ::
  "jsval \<Rightarrow> string \<Rightarrow> string list \<Rightarrow> attempt list \<Rightarrow> js_error + attempt list" where
  "attempts_loop serverIp now [] found = Inr found"
| "attempts_loop serverIp now (line # lines) found =
     (let parts = columns line in
      if 5 \<le> length parts then
        (let proto = js_index parts 0;
             local = js_index parts 1;
             remote = js_index parts 2;
             state = or_empty (js_index parts 3);
             pid = or_empty (js_index parts 4)
         in case remote_matches serverIp remote of
              Inl e \<Rightarrow> Inl e
            | Inr False \<Rightarrow> attempts_loop serverIp now lines found
            | Inr True \<Rightarrow>
                (case parseAddressPort remote of
                   Inl e \<Rightarrow> Inl e
                 | Inr (rAddr, rPort) \<Rightarrow>
                     (case parseAddressPort local of
                        Inl e \<Rightarrow> Inl e
                      | Inr (lAddr, lPort) \<Rightarrow>
                          attempts_loop serverIp now lines
                            (found @ [\<lparr>proto = proto, localAddress = Some lAddr,
                                        localPort = Some lPort, pid = Some pid,
                                        timestamp = now, remoteAddress = Some rAddr,
                                        remotePort = Some rPort, state = Some state\<rparr>]))))
      else attempts_loop serverIp now lines found)"

text \<open>The callback of one poll: \<^verbatim>\<open>if (!err && stdout) { ... }\<close>.\<close>

definition exec_callback ::
  "jsval \<Rightarrow> string \<Rightarrow> exec_result \<Rightarrow> attempt list \<Rightarrow> js_error + attempt list" where
  "exec_callback serverIp now r found =
     (case r of
        ExecFailed m \<Rightarrow> Inr found
      | ExecOk stdout \<Rightarrow>
          if stdout = [] then Inr found
          else attempts_loop serverIp now (data_lines stdout) found)"

text \<open>
  The watcher runs on the event loop: the timer callback of tick \<open>k\<close> starts poll \<open>k\<close>
  (\<^verbatim>\<open>exec\<close> returns at once), counts the tick, sends the progress and, at the last
  tick, resolves the promise in that same callback. The callback of a poll runs in a
  later turn of the loop, whenever its \<^verbatim>\<open>netstat\<close> has ended. What the
  environment decides is written as a schedule: for each tick, the poll callbacks that
  run after this tick and before the next one, each with the poll it belongs to, what
  \<^verbatim>\<open>exec\<close> hands over and the clock reading. A callback of a poll that is not
  outstanding cannot happen and is skipped.
\<close>

record completion =
  poll_id :: nat
  outcome :: exec_result
  clock :: string

type_synonym schedule = "completion list list"

text \<open>The state of one call: \<open>ticks\<close> is the counter \<^verbatim>\<open>i\<close>, \<open>found\<close> the array,
  \<open>pending\<close> the polls started whose callback has not run, \<open>sent\<close> the
  \<^verbatim>\<open>progress\<close> values sent (\<open>None\<close>: not a finite number, which the message
  channel carries as \<^verbatim>\<open>null\<close>), \<open>crashed\<close> an exception that escaped a
  callback (it ends the process).\<close>

record watcher =
  ticks :: nat
  found :: "attempt list"
  pending :: "nat list"
  sent :: "int option list"
  crashed :: "js_error option"

text \<open>\<^verbatim>\<open>Math.ceil(durationMs / 2000)\<close> and \<^verbatim>\<open>Math.round(a / b)\<close> on integers, in
  exact arithmetic.\<close>

definition ceil_div :: "int \<Rightarrow> int \<Rightarrow> int" where
  "ceil_div a b = - ((- a) div b)"

definition round_div :: "int \<Rightarrow> int \<Rightarrow> int" where
  "round_div a b = (2 * a + b) div (2 * b)"

text \<open>\<^verbatim>\<open>75 + Math.round((i / polls) * 15)\<close>; with \<open>polls = 0\<close> the value is not
  finite.\<close>

definition monitor_percent :: "nat \<Rightarrow> int \<Rightarrow> int option" where
  "monitor_percent i polls =
     (if polls = 0 then None else Some (75 + round_div (15 * int i) polls))"

definition run_callback :: "jsval \<Rightarrow> completion \<Rightarrow> watcher \<Rightarrow> watcher" where
  "run_callback serverIp c w =
     (if crashed w \<noteq> None \<or> poll_id c \<notin> set (pending w) then w
      else
        (case exec_callback serverIp (clock c) (outcome c) (found w) of
           Inl e \<Rightarrow> w\<lparr>pending := remove1 (poll_id c) (pending w), crashed := Some e\<rparr>
         | Inr found' \<Rightarrow> w\<lparr>pending := remove1 (poll_id c) (pending w), found := found'\<rparr>))"

fun run_callbacks :: "jsval \<Rightarrow> completion list \<Rightarrow> watcher \<Rightarrow> watcher" where
  "run_callbacks serverIp [] w = w"
| "run_callbacks serverIp (c # cs) w = run_callbacks serverIp cs (run_callback serverIp c w)"

text \<open>The timer callback, tick after tick, until \<^verbatim>\<open>i >= polls\<close> resolves the promise
  with \<open>found\<close> as it is then; the awaiting caller goes on before any other callback
  runs.\<close>

function watch_loop :: "jsval \<Rightarrow> int \<Rightarrow> schedule \<Rightarrow> watcher \<Rightarrow> watcher" where
  "watch_loop serverIp polls sched w =
     (if crashed w \<noteq> None then w
      else
        (let w1 = w\<lparr>pending := pending w @ [Suc (ticks w)]\<rparr>;
             i = Suc (ticks w1);
             w2 = w1\<lparr>ticks := i, sent := sent w1 @ [monitor_percent i polls]\<rparr>
         in if polls \<le> int i then w2
            else watch_loop serverIp polls (tl sched)
                   (run_callbacks serverIp (case sched of [] \<Rightarrow> [] | r # rs \<Rightarrow> r) w2)))"
  by pat_completeness auto
termination
proof (relation "measure (\<lambda>(serverIp, polls, sched, w). nat (polls - int (ticks w)))")
  show "wf (measure (\<lambda>(serverIp, polls, sched, w). nat (polls - int (ticks w))))"
    by simp
next
  fix serverIp :: jsval and polls :: int and sched :: schedule and w w1 w2 :: watcher
    and i :: nat
  assume a: "w1 = w\<lparr>pending := pending w @ [Suc (ticks w)]\<rparr>" "i = Suc (ticks w1)"
    "w2 = w1\<lparr>ticks := i, sent := sent w1 @ [monitor_percent i polls]\<rparr>"
    "\<not> polls \<le> int i"
  have keep: "ticks (run_callbacks serverIp cs v) = ticks v" for cs v
    by (induction cs arbitrary: v) (auto simp: run_callback_def split: sum.splits)
  from a show "((serverIp, polls, tl sched,
        run_callbacks serverIp (case sched of [] \<Rightarrow> [] | r # rs \<Rightarrow> r) w2),
       serverIp, polls, sched, w)
      \<in> measure (\<lambda>(serverIp, polls, sched, w). nat (polls - int (ticks w)))"
    by (simp add: keep)
qed

declare watch_loop.simps [simp del]

definition monitorConnectionAttempts :: "jsval \<Rightarrow> port_arg \<Rightarrow> int \<Rightarrow> schedule \<Rightarrow> watcher" where
  "monitorConnectionAttempts serverIp serverPort durationMs sched =
     watch_loop serverIp (ceil_div durationMs 2000) sched
       \<lparr>ticks = 0, found = [], pending = [], sent = [], crashed = None\<rparr>"

section \<open>Probe Controller: the handler of the start message\<close>

text \<open>\<^verbatim>\<open>extractHostFromEndpoint(endpoint)\<close>. The \<^verbatim>\<open>URL\<close> class belongs to the platform:
  it is the parameter \<open>url_hostname\<close>, \<open>None\<close> when the constructor throws. The first
  fallback pattern, \<^verbatim>\<open>/^opc\.tcp:\/\/([^\/:]+)(?::\d+)?/i\<close>, captures the longest run
  without slash and colon after the scheme.\<close>

definition opc_host_match :: "string \<Rightarrow> string option" where
  "opc_host_match s =
     (if startsWith (map ascii_lower s) ''opc.tcp://'' then
        (let h = takeWhile (\<lambda>c. c \<noteq> CHR ''/'' \<and> c \<noteq> CHR '':'') (drop (length ''opc.tcp://'') s)
         in if h = [] then None else Some h)
      else None)"

definition extractHostFromEndpoint :: "(string \<Rightarrow> string option) \<Rightarrow> string \<Rightarrow> jsval" where
  "extractHostFromEndpoint url_hostname endpoint =
     (if endpoint = [] then None
      else
        (case url_hostname endpoint of
           Some hostname \<Rightarrow> Some hostname
         | None \<Rightarrow>
             (let text = trim endpoint in
              case opc_host_match text of
                Some h \<Rightarrow> Some h
              | None \<Rightarrow>
                  (case host_port_match text of
                     Some (h, d) \<Rightarrow> Some h
                   | None \<Rightarrow> (if text = [] then None else Some text)))))"

text \<open>\<^verbatim>\<open>v || null\<close>\<close>

definition or_null :: "jsval \<Rightarrow> jsval" where
  "or_null v = (case v of None \<Rightarrow> None | Some s \<Rightarrow> (if s = [] then None else Some s))"

record config =
  server :: string
  port :: port_arg
  nodeId :: string
  publishingInterval :: nat

record endpoint =
  endpointUrl :: string
  securityPolicyUri :: string
  securityMode :: string
  userIdentityTokens :: "string list"

datatype subscription_result = SubscriptionOk string | SubscriptionFailed string

record final_result =
  endpoints :: "endpoint list"
  beforeListeners :: "listener list"
  subscriptionResult :: subscription_result
  afterListeners :: "listener list"
  connections :: "attempt list"

datatype payload =
    PEndpoints "endpoint list"
  | PBeforeListeners "listener list"
  | PSubscriptionResult subscription_result
  | PAfterListeners "listener list"
  | PConnections "attempt list"

text \<open>The messages \<^verbatim>\<open>send\<close> hands to the parent process, but for the \<^verbatim>\<open>log\<close> lines
  (the copies of the simple log lines on the channel are not recorded). \<^verbatim>\<open>send\<close>
  swallows every exception of the channel, so it never throws.\<close>

datatype event =
    Progress "int option"
  | ResultPartial payload
  | ResultFinal final_result
  | ErrorEvent js_error

text \<open>What the handler asks of the outside world.\<close>

datatype ext_call = CallDiscover string | CallNetstat | CallSubscribe string

text \<open>The state of one run: the messages sent, the \<^verbatim>\<open>errors\<close> and \<^verbatim>\<open>warnings\<close>
  arrays (context and what was recorded), the external calls made, and the port
  comparison written to the log.\<close>

record probe =
  events :: "event list"
  errors :: "(string \<times> js_error) list"
  warnings :: "(string \<times> string) list"
  calls :: "ext_call list"
  logged_comparison :: "port_comparison option"

definition send :: "event \<Rightarrow> probe \<Rightarrow> probe" where
  "send ev p = p\<lparr>events := events p @ [ev]\<rparr>"

text \<open>\<^verbatim>\<open>errors.push(errorObj)\<close> and \<^verbatim>\<open>warnings.push(warningObj)\<close>\<close>

definition push_error :: "js_error \<Rightarrow> string \<Rightarrow> probe \<Rightarrow> probe" where
  "push_error err ctx p = p\<lparr>errors := errors p @ [(ctx, err)]\<rparr>"

definition push_warning :: "string \<Rightarrow> string \<Rightarrow> probe \<Rightarrow> probe" where
  "push_warning warning ctx p = p\<lparr>warnings := warnings p @ [(ctx, warning)]\<rparr>"

definition call :: "ext_call \<Rightarrow> probe \<Rightarrow> probe" where
  "call c p = p\<lparr>calls := calls p @ [c]\<rparr>"

text \<open>
  The log file. \<^verbatim>\<open>appendLog\<close> writes each line with \<^verbatim>\<open>fs.appendFileSync\<close>, which
  throws when the write fails; the handler makes the directory of the file when it
  starts and swallows a failure to make it, after which every write throws. The text
  of the log is not modelled, a failing write is. The calls of \<^verbatim>\<open>appendLog\<close> in the
  handler (those inside the \<^verbatim>\<open>format...\<close> functions, \<^verbatim>\<open>logError\<close>, \<^verbatim>\<open>logWarning\<close>
  and \<^verbatim>\<open>writeErrorSummary\<close> included) are grouped into sites: a site is a run of
  consecutive writes between which the handler does nothing that the state of the run
  records, so that which write of the site fails makes no difference. The sites, with
  the lines of worker.js:

  \<^item> \<open>LogStarted\<close> 388-389, before the \<^verbatim>\<open>try\<close>;
  \<^item> \<open>LogQuerying\<close> 394, \<open>LogConnecting\<close> 396, \<open>LogRetrieved\<close> 401,
    \<open>LogNoEndpoints\<close> 426 (the writes of \<^verbatim>\<open>logWarning\<close>), \<open>LogEndpointResults\<close> 424 or
    427, \<open>LogEndpointError\<close> 430 (the writes of \<^verbatim>\<open>logError\<close>);
  \<^item> \<open>LogBaseline\<close> 438, \<open>LogBaselineResult\<close> 444-455, \<open>LogBaselineError\<close> 457,
    \<open>LogBaselineWarning\<close> 459;
  \<^item> \<open>LogSubscribing\<close> 466-468, \<open>LogSubscribed\<close> 475-476, \<open>LogSubscriptionFailed\<close>
    478-479, \<open>LogSubscriptionError\<close> 482-484;
  \<^item> \<open>LogAfter\<close> 491, \<open>LogAfterResult\<close> 497-520, \<open>LogAfterError\<close> 522,
    \<open>LogAfterWarning\<close> 524;
  \<^item> \<open>LogMonitoring\<close> 531-535, \<open>LogMonitorResult\<close> 541-558, \<open>LogMonitorError\<close> 561,
    \<open>LogMonitorWarning\<close> 563;
  \<^item> \<open>LogSummary\<close> 570-585, \<open>LogFinished\<close> 588, \<open>LogFailed\<close> 591-603, inside the outer
    \<^verbatim>\<open>catch\<close>.
\<close>

datatype log_site =
    LogStarted
  | LogQuerying | LogConnecting | LogRetrieved | LogNoEndpoints | LogEndpointResults
  | LogEndpointError
  | LogBaseline | LogBaselineResult | LogBaselineError | LogBaselineWarning
  | LogSubscribing | LogSubscribed | LogSubscriptionFailed | LogSubscriptionError
  | LogAfter | LogAfterResult | LogAfterError | LogAfterWarning
  | LogMonitoring | LogMonitorResult | LogMonitorError | LogMonitorWarning
  | LogSummary | LogFinished | LogFailed

text \<open>The outside world of one run: the \<^verbatim>\<open>URL\<close> parser, the endpoint client
  (\<open>discover\<close>: connect and \<^verbatim>\<open>getEndpoints\<close> on a URL; \<open>session\<close>: connect, session,
  subscription and monitored item on a URL, \<open>Some m\<close> when a step fails with the text
  \<open>m\<close>), the two \<^verbatim>\<open>netstat\<close> runs of the snapshots, the schedule of the polls, and
  the file system (\<open>log_write s\<close> is \<open>Some err\<close> when a write of the site \<open>s\<close> throws
  \<open>err\<close>).\<close>

record env =
  url_hostname :: "string \<Rightarrow> string option"
  discover :: "string \<Rightarrow> js_error + endpoint list"
  netstat_before :: exec_result
  session :: "string \<Rightarrow> string option"
  netstat_after :: exec_result
  netstat_polls :: schedule
  log_write :: "log_site \<Rightarrow> js_error option"

text \<open>
  What a piece of the handler ends with: a value; an exception thrown, which the
  nearest \<^verbatim>\<open>catch\<close> around the piece receives; or an exception thrown in a callback of
  the event loop, outside the chain of awaits of the handler, which none of its
  \<^verbatim>\<open>catch\<close> blocks sees and which ends the process. A piece of the handler is a
  function from the state of the run to the new state and the outcome; \<open>andThen\<close> is
  sequencing (the second piece runs when the first ends with a value) and \<open>tryCatch\<close>
  is \<^verbatim>\<open>try { ... } catch (err) { ... }\<close>.
\<close>

datatype 'a result = Val 'a | Throw js_error | Abort js_error

type_synonym 'a action = "probe \<Rightarrow> probe \<times> 'a result"

definition ret :: "'a \<Rightarrow> 'a action" where
  "ret x p = (p, Val x)"

definition throw :: "js_error \<Rightarrow> 'a action" where
  "throw err p = (p, Throw err)"

definition andThen :: "'a action \<Rightarrow> ('a \<Rightarrow> 'b action) \<Rightarrow> 'b action" where
  "andThen m f p =
     (case m p of
        (p1, Val x) \<Rightarrow> f x p1
      | (p1, Throw err) \<Rightarrow> (p1, Throw err)
      | (p1, Abort err) \<Rightarrow> (p1, Abort err))"

definition tryCatch :: "'a action \<Rightarrow> (js_error \<Rightarrow> 'a action) \<Rightarrow> 'a action" where
  "tryCatch m h p =
     (case m p of
        (p1, Val x) \<Rightarrow> (p1, Val x)
      | (p1, Throw err) \<Rightarrow> h err p1
      | (p1, Abort err) \<Rightarrow> (p1, Abort err))"

text \<open>A change of the state that cannot throw, and the outcome of a function that
  returns or throws.\<close>

definition effect :: "(probe \<Rightarrow> probe) \<Rightarrow> unit action" where
  "effect f p = (f p, Val ())"

definition fromSum :: "js_error + 'a \<Rightarrow> 'a action" where
  "fromSum r = (case r of Inl err \<Rightarrow> throw err | Inr x \<Rightarrow> ret x)"

text \<open>The writes of one site, and \<^verbatim>\<open>logError\<close> and \<^verbatim>\<open>logWarning\<close>, which push their
  record before they write.\<close>

definition appendLog :: "env \<Rightarrow> log_site \<Rightarrow> unit action" where
  "appendLog e site = (case log_write e site of None \<Rightarrow> ret () | Some err \<Rightarrow> throw err)"

definition logError :: "env \<Rightarrow> js_error \<Rightarrow> string \<Rightarrow> log_site \<Rightarrow> unit action" where
  "logError e err ctx site = andThen (effect (push_error err ctx)) (\<lambda>u. appendLog e site)"

definition logWarning :: "env \<Rightarrow> string \<Rightarrow> string \<Rightarrow> log_site \<Rightarrow> unit action" where
  "logWarning e warning ctx site =
     andThen (effect (push_warning warning ctx)) (\<lambda>u. appendLog e site)"

text \<open>\<^verbatim>\<open>String(err)\<close>\<close>

definition error_string :: "js_error \<Rightarrow> string" where
  "error_string e =
     (case e of Error m \<Rightarrow> (if m = [] then ''Error'' else ''Error: '' @ m)
      | TypeError \<Rightarrow> ''TypeError'')"

text \<open>The two calls of the endpoint client, awaited, and the awaited snapshot.\<close>

definition queryEndpoints :: "env \<Rightarrow> string \<Rightarrow> port_arg \<Rightarrow> endpoint list action" where
  "queryEndpoints e serverUrl portArg =
     andThen (fromSum (normalizeEndpoint serverUrl portArg)) (\<lambda>url.
     andThen (effect (call (CallDiscover url))) (\<lambda>u.
     fromSum (discover e url)))"

definition createSubscriptionAndMonitor :: "env \<Rightarrow> config \<Rightarrow> subscription_result action" where
  "createSubscriptionAndMonitor e cfg =
     andThen (fromSum (normalizeEndpoint (server cfg) (port cfg))) (\<lambda>url.
     andThen (effect (call (CallSubscribe url))) (\<lambda>u.
     ret (case session e url of
            None \<Rightarrow> SubscriptionOk (if nodeId cfg = [] then ''ns=0;i=2258'' else nodeId cfg)
          | Some m \<Rightarrow> SubscriptionFailed m)))"

definition await_listeners :: "exec_result \<Rightarrow> listener list action" where
  "await_listeners r =
     andThen (effect (call CallNetstat)) (\<lambda>u. fromSum (getListeningPorts r))"

text \<open>The awaited watcher: its ticks send their progress and start their polls; the
  promise has no rejecting path, and an exception inside a poll callback ends the
  process.\<close>

definition await_monitor :: "env \<Rightarrow> jsval \<Rightarrow> port_arg \<Rightarrow> attempt list action" where
  "await_monitor e serverIp serverPort p =
     (let w = monitorConnectionAttempts serverIp serverPort (30 * 1000) (netstat_polls e);
          p1 = p\<lparr>events := events p @ map Progress (sent w),
                  calls := calls p @ replicate (ticks w) CallNetstat\<rparr>
      in case crashed w of
           Some err \<Rightarrow> (p1, Abort err)
         | None \<Rightarrow> (p1, Val (found w)))"

text \<open>Step 1 (lines 393-434). The inner \<^verbatim>\<open>catch\<close> records the error and throws it
  again.\<close>

definition query_step :: "config \<Rightarrow> env \<Rightarrow> endpoint list action" where
  "query_step cfg e =
     andThen (effect (send (Progress (Some 10)))) (\<lambda>u.
     andThen (appendLog e LogQuerying) (\<lambda>u.
     andThen (fromSum (normalizeEndpoint (server cfg) (port cfg))) (\<lambda>url.
     andThen (appendLog e LogConnecting) (\<lambda>u.
     andThen
       (tryCatch
          (andThen (queryEndpoints e (server cfg) (port cfg)) (\<lambda>eps.
           andThen (appendLog e LogRetrieved) (\<lambda>u.
           andThen (if eps \<noteq> [] then appendLog e LogEndpointResults
                    else andThen (logWarning e ''No endpoints returned from server''
                                    ''Endpoint Query'' LogNoEndpoints) (\<lambda>u.
                         appendLog e LogEndpointResults)) (\<lambda>u.
           ret eps))))
          (\<lambda>err. andThen (logError e err ''Endpoint Query'' LogEndpointError) (\<lambda>u.
                  throw err))) (\<lambda>eps.
     andThen (effect (send (ResultPartial (PEndpoints eps)))) (\<lambda>u.
     ret eps))))))"

text \<open>Step 2 (lines 437-462).\<close>

definition baseline_step :: "env \<Rightarrow> listener list action" where
  "baseline_step e =
     andThen (effect (send (Progress (Some 25)))) (\<lambda>u.
     andThen (appendLog e LogBaseline) (\<lambda>u.
     andThen
       (tryCatch
          (andThen (await_listeners (netstat_before e)) (\<lambda>ls.
           andThen (appendLog e LogBaselineResult) (\<lambda>u.
           ret ls)))
          (\<lambda>err. andThen (logError e err ''Baseline Port Capture'' LogBaselineError) (\<lambda>u.
                  andThen (logWarning e
                             ''Failed to capture baseline ports, continuing with empty array''
                             ''Baseline Port Capture'' LogBaselineWarning) (\<lambda>u.
                  ret [])))) (\<lambda>ls.
     andThen (effect (send (ResultPartial (PBeforeListeners ls)))) (\<lambda>u.
     ret ls))))"

text \<open>Step 3 (lines 465-487).\<close>

definition subscribe_step :: "config \<Rightarrow> env \<Rightarrow> subscription_result action" where
  "subscribe_step cfg e =
     andThen (effect (send (Progress (Some 45)))) (\<lambda>u.
     andThen (appendLog e LogSubscribing) (\<lambda>u.
     andThen
       (tryCatch
          (andThen (createSubscriptionAndMonitor e cfg) (\<lambda>sub.
           andThen (case sub of
                      SubscriptionOk n \<Rightarrow> appendLog e LogSubscribed
                    | SubscriptionFailed m \<Rightarrow>
                        logError e (Error (if m = [] then ''Subscription failed'' else m))
                          ''Subscription Creation'' LogSubscriptionFailed) (\<lambda>u.
           ret sub)))
          (\<lambda>err. andThen (logError e err ''Subscription Creation'' LogSubscriptionError) (\<lambda>u.
                  ret (SubscriptionFailed (error_string err))))) (\<lambda>sub.
     andThen (effect (send (ResultPartial (PSubscriptionResult sub)))) (\<lambda>u.
     ret sub))))"

text \<open>Step 4 (lines 490-527); \<open>baseline\<close> is \<^verbatim>\<open>beforeListeners\<close>.\<close>

definition after_step :: "env \<Rightarrow> listener list \<Rightarrow> listener list action" where
  "after_step e baseline =
     andThen (effect (send (Progress (Some 65)))) (\<lambda>u.
     andThen (appendLog e LogAfter) (\<lambda>u.
     andThen
       (tryCatch
          (andThen (await_listeners (netstat_after e)) (\<lambda>ls.
           andThen (appendLog e LogAfterResult) (\<lambda>u.
           andThen (effect (\<lambda>p. p\<lparr>logged_comparison := Some (comparison baseline ls)\<rparr>)) (\<lambda>u.
           ret ls))))
          (\<lambda>err. andThen (logError e err ''Post-Subscription Port Capture'' LogAfterError) (\<lambda>u.
                  andThen (logWarning e
                             ''Failed to capture post-subscription ports, continuing with empty array''
                             ''Post-Subscription Port Capture'' LogAfterWarning) (\<lambda>u.
                  ret [])))) (\<lambda>ls.
     andThen (effect (send (ResultPartial (PAfterListeners ls)))) (\<lambda>u.
     ret ls))))"

text \<open>Step 5 (lines 530-566).\<close>

definition monitor_step :: "config \<Rightarrow> env \<Rightarrow> attempt list action" where
  "monitor_step cfg e =
     andThen (effect (send (Progress (Some 75)))) (\<lambda>u.
     andThen (appendLog e LogMonitoring) (\<lambda>u.
     andThen
       (tryCatch
          (andThen (await_monitor e
                      (or_null (extractHostFromEndpoint (url_hostname e) (server cfg)))
                      (port cfg)) (\<lambda>conns.
           andThen (appendLog e LogMonitorResult) (\<lambda>u.
           ret conns)))
          (\<lambda>err. andThen (logError e err ''Connection Monitoring'' LogMonitorError) (\<lambda>u.
                  andThen (logWarning e
                             ''Failed to monitor connections, continuing with empty array''
                             ''Connection Monitoring'' LogMonitorWarning) (\<lambda>u.
                  ret [])))) (\<lambda>conns.
     andThen (effect (send (ResultPartial (PConnections conns)))) (\<lambda>u.
     ret conns))))"

text \<open>The five steps and the completion summary (lines 568-585): the body of the outer
  \<^verbatim>\<open>try\<close> up to the final result.\<close>

definition pipeline :: "config \<Rightarrow> env \<Rightarrow> final_result action" where
  "pipeline cfg e =
     andThen (query_step cfg e) (\<lambda>eps.
     andThen (baseline_step e) (\<lambda>baseline.
     andThen (subscribe_step cfg e) (\<lambda>sub.
     andThen (after_step e baseline) (\<lambda>after.
     andThen (monitor_step cfg e) (\<lambda>conns.
     andThen (appendLog e LogSummary) (\<lambda>u.
     ret \<lparr>endpoints = eps, beforeListeners = baseline, subscriptionResult = sub,
          afterListeners = after, connections = conns\<rparr>))))))"

text \<open>The handler from its first log write on (lines 388-607); the value is the exit
  code handed to \<^verbatim>\<open>process.exit\<close>.\<close>

definition handler :: "config \<Rightarrow> env \<Rightarrow> nat action" where
  "handler cfg e =
     andThen (appendLog e LogStarted) (\<lambda>u.
     tryCatch
       (andThen (pipeline cfg e) (\<lambda>final.
        andThen (effect (send (ResultFinal final))) (\<lambda>u.
        andThen (appendLog e LogFinished) (\<lambda>u.
        ret 0))))
       (\<lambda>err. andThen (logError e err ''Probe Execution'' LogFailed) (\<lambda>u.
               andThen (effect (send (ErrorEvent err))) (\<lambda>u.
               ret 1))))"

text \<open>How a run ends: \<^verbatim>\<open>process.exit\<close> with a code; an exception that leaves the
  handler (thrown by a log write before the \<^verbatim>\<open>try\<close> or inside the outer \<^verbatim>\<open>catch\<close>),
  which rejects the promise of the handler with nothing to handle it; or an exception
  in a callback of the event loop.\<close>

datatype ending = Exited nat | Rejected js_error | Uncaught js_error

definition run_probe :: "config \<Rightarrow> env \<Rightarrow> probe \<times> ending" where
  "run_probe cfg e =
     (case handler cfg e
             \<lparr>events = [], errors = [], warnings = [], calls = [], logged_comparison = None\<rparr> of
        (p, Val code) \<Rightarrow> (p, Exited code)
      | (p, Throw err) \<Rightarrow> (p, Rejected err)
      | (p, Abort err) \<Rightarrow> (p, Uncaught err))"

section \<open>Reference descriptions and sample inputs\<close>

text \<open>The record a row of at least five columns is turned into, written with plain list
  access; used to state what getListeningPorts returns.\<close>

definition listener_of_row :: "string list \<Rightarrow> listener" where
  "listener_of_row parts =
     \<lparr>proto = Some (parts ! 0),
      localAddress = Some (fst (addr_port (parts ! 1))),
      localPort = Some (snd (addr_port (parts ! 1))),
      pid = Some (parts ! 4)\<rparr>"

text \<open>The four header lines \<^verbatim>\<open>netstat -ano\<close> prints on Windows (an empty line, the
  title, an empty line, the column titles), and CR LF.\<close>

definition crlf :: string where
  "crlf = [CHR 0x0D, CHR 0x0A]"

definition netstat_header :: string where
  "netstat_header =
     crlf @ ''Active Connections'' @ crlf @ crlf
     @ ''  Proto  Local Address          Foreign Address        State           PID'' @ crlf"

text \<open>A table of five rows with the states LISTENING, ESTABLISHED, Listening, LISTEN and
  listen.\<close>

definition listen_table :: string where
  "listen_table =
     netstat_header
     @ ''  TCP    0.0.0.0:135      0.0.0.0:0        LISTENING      1044'' @ crlf
     @ ''  TCP    10.0.0.7:49712   10.0.0.5:4840    ESTABLISHED    5120'' @ crlf
     @ ''  TCP    0.0.0.0:445      0.0.0.0:0        Listening      4'' @ crlf
     @ ''  tcp    0.0.0.0:22       0.0.0.0:0        LISTEN         77'' @ crlf
     @ ''  tcp    0.0.0.0:80       0.0.0.0:0        listen         78'' @ crlf"

text \<open>A table with a row of four columns (UDP rows have no state), a listening row
  whose local address has no colon, and a row of one column.\<close>

definition short_row_table :: string where
  "short_row_table =
     netstat_header
     @ ''  UDP    0.0.0.0:500      *:*              1234'' @ crlf
     @ ''  TCP    localhost        0.0.0.0:0        LISTENING      4'' @ crlf
     @ ''  garbage'' @ crlf"

text \<open>A listening socket on the given address and port, as getListeningPorts records it.\<close>

definition tcp_listener :: "string \<Rightarrow> string \<Rightarrow> string \<Rightarrow> listener" where
  "tcp_listener addr prt owner =
     \<lparr>proto = Some ''TCP'', localAddress = Some addr, localPort = Some prt, pid = Some owner\<rparr>"

text \<open>The server text after \<^verbatim>\<open>trim\<close> with a leading \<^verbatim>\<open>opc.tcp://\<close> (in any letter
  case) taken off, as normalizeEndpoint computes it.\<close>

definition strip_scheme :: "string \<Rightarrow> string" where
  "strip_scheme s =
     (if startsWith (map ascii_lower s) ''opc.tcp://'' then drop (length ''opc.tcp://'') s else s)"

text \<open>What it means for \<open>s\<close> to match \<^verbatim>\<open>/^(.+?):(\d+)$/\<close> with the groups \<open>h\<close> and
  \<open>d\<close>: \<open>s\<close> is \<open>h\<close>, a colon and \<open>d\<close>, where \<open>h\<close> is not empty and has no line
  terminator, and \<open>d\<close> is a non-empty run of digits.\<close>

definition host_digits :: "string \<Rightarrow> string \<Rightarrow> string \<Rightarrow> bool" where
  "host_digits s h d =
     (s = h @ '':'' @ d \<and> h \<noteq> [] \<and> list_all (\<lambda>c. \<not> is_line_terminator c) h
      \<and> d \<noteq> [] \<and> list_all is_digit d)"

text \<open>One timer callback of the watcher up to its test \<^verbatim>\<open>i >= polls\<close>, and the poll
  callbacks that run before the next tick; \<open>watch_loop\<close> is these two, repeated.\<close>

definition tick :: "int \<Rightarrow> watcher \<Rightarrow> watcher" where
  "tick polls w =
     w\<lparr>pending := pending w @ [Suc (ticks w)], ticks := Suc (ticks w),
       sent := sent w @ [monitor_percent (Suc (ticks w)) polls]\<rparr>"

definition round_of :: "schedule \<Rightarrow> completion list" where
  "round_of sched = (case sched of [] \<Rightarrow> [] | r # rs \<Rightarrow> r)"

text \<open>Two established connections, one from 10.0.0.5 and one from 10.0.0.50, and the
  callback of poll \<open>k\<close> at clock reading \<open>now\<close> with a table of one row.\<close>

definition row_from_5 :: string where
  "row_from_5 = ''  TCP    10.0.0.7:49712   10.0.0.5:4840    ESTABLISHED    5120''"

definition row_from_50 :: string where
  "row_from_50 = ''  TCP    10.0.0.7:49713   10.0.0.50:4840   ESTABLISHED    5120''"

definition poll_done :: "nat \<Rightarrow> string \<Rightarrow> string \<Rightarrow> completion" where
  "poll_done k now row =
     \<lparr>poll_id = k, outcome = ExecOk (netstat_header @ row @ crlf), clock = now\<rparr>"

text \<open>The \<^verbatim>\<open>progress\<close> values among the messages of a run, in the order sent, and the
  tests for the final result and for the \<^verbatim>\<open>error\<close> message.\<close>

fun percents :: "event list \<Rightarrow> int option list" where
  "percents [] = []"
| "percents (Progress v # es) = v # percents es"
| "percents (ResultPartial x # es) = percents es"
| "percents (ResultFinal x # es) = percents es"
| "percents (ErrorEvent x # es) = percents es"



text \<open>The messages of a run that passes endpoint discovery, given what the five steps
  produced.\<close>

definition completed_trace ::
  "endpoint list \<Rightarrow> listener list \<Rightarrow> subscription_result \<Rightarrow> listener list \<Rightarrow> attempt list
   \<Rightarrow> event list" where
  "completed_trace eps b s a c =
     [Progress (Some 10), ResultPartial (PEndpoints eps),
      Progress (Some 25), ResultPartial (PBeforeListeners b),
      Progress (Some 45), ResultPartial (PSubscriptionResult s),
      Progress (Some 65), ResultPartial (PAfterListeners a),
      Progress (Some 75)]
     @ map (\<lambda>i. Progress (Some (75 + int i))) [1 ..< 16]
     @ [ResultPartial (PConnections c),
        ResultFinal \<lparr>endpoints = eps, beforeListeners = b, subscriptionResult = s,
                     afterListeners = a, connections = c\<rparr>]"

text \<open>Sample runs: a configuration as the form sends it, a server that refuses the
  connection, and a server that answers. In \<open>answering_env\<close> the \<^verbatim>\<open>URL\<close> class reads
  \<^verbatim>\<open>localhost:4840\<close> as a URL with the scheme \<^verbatim>\<open>localhost:\<close> and an empty host name,
  as the platform's parser does; every poll sees the connection from 10.0.0.5.\<close>

definition sample_config :: "string \<Rightarrow> config" where
  "sample_config srv =
     \<lparr>server = srv, port = PortNum 4840, nodeId = ''ns=0;i=2258'', publishingInterval = 250\<rparr>"


definition answering_env :: env where
  "answering_env =
     \<lparr>url_hostname = (\<lambda>s. if s = ''localhost:4840'' then Some [] else None),
      discover = (\<lambda>u. Inr [\<lparr>endpointUrl = u,
                    securityPolicyUri = ''http://opcfoundation.org/UA/SecurityPolicy#None'',
                    securityMode = ''None'', userIdentityTokens = [''Anonymous'']\<rparr>]),
      netstat_before = ExecOk listen_table,
      session = (\<lambda>u. None),
      netstat_after = ExecOk listen_table,
      netstat_polls = map (\<lambda>k. [poll_done k ''2024-05-01T10:00:00.000Z'' row_from_5]) [1 ..< 16],
      log_write = (\<lambda>s. None)\<rparr>"




text \<open>The progress values of a run that completes.\<close>

definition checkpoints :: "int list" where
  "checkpoints = [10, 25, 45, 65, 75] @ map (\<lambda>i. 75 + int i) [1 ..< 16]"

text \<open>What a piece of the handler adds to the progress values sent so far: when it
  ends with a value it has sent exactly the values \<open>L\<close>, in this order; when it ends
  with an exception it has sent the first \<open>n\<close> of them, for some \<open>n\<close>.\<close>

definition emits :: "int list \<Rightarrow> 'a action \<Rightarrow> bool" where
  "emits L m =
     (\<forall>p. case m p of
            (p1, Val x) \<Rightarrow> percents (events p1) = percents (events p) @ map Some L
          | (p1, Throw err) \<Rightarrow>
              (\<exists>n. percents (events p1) = percents (events p) @ map Some (take n L))
          | (p1, Abort err) \<Rightarrow>
              (\<exists>n. percents (events p1) = percents (events p) @ map Some (take n L)))"

section \<open>Properties of the socket table snapshot\<close>

lemma match_ci_at_iff:
  "match_ci_at p s \<longleftrightarrow> (\<exists>post. map ascii_upper s = map ascii_upper p @ post)"
  by (induction p s rule: match_ci_at.induct) auto

lemma regex_test_ci_iff:
  "regex_test_ci p s \<longleftrightarrow> (\<exists>pre post. map ascii_upper s = pre @ map ascii_upper p @ post)"
proof (induction s)
  case Nil
  show ?case by (cases p) auto
next
  case (Cons c cs)
  show ?case
  proof
    assume "regex_test_ci p (c # cs)"
    then consider "match_ci_at p (c # cs)" | "regex_test_ci p cs" by auto
    then show "\<exists>pre post. map ascii_upper (c # cs) = pre @ map ascii_upper p @ post"
    proof cases
      case 1
      then obtain post where "map ascii_upper (c # cs) = map ascii_upper p @ post"
        unfolding match_ci_at_iff by blast
      then have "map ascii_upper (c # cs) = [] @ map ascii_upper p @ post" by simp
      then show ?thesis by blast
    next
      case 2
      then obtain pre post where "map ascii_upper cs = pre @ map ascii_upper p @ post"
        using Cons.IH by blast
      then have "map ascii_upper (c # cs) = (ascii_upper c # pre) @ map ascii_upper p @ post"
        by simp
      then show ?thesis by blast
    qed
  next
    assume "\<exists>pre post. map ascii_upper (c # cs) = pre @ map ascii_upper p @ post"
    then obtain pre post where eq: "map ascii_upper (c # cs) = pre @ map ascii_upper p @ post"
      by blast
    show "regex_test_ci p (c # cs)"
    proof (cases pre)
      case Nil
      with eq have "match_ci_at p (c # cs)" unfolding match_ci_at_iff by auto
      then show ?thesis by simp
    next
      case (Cons a pre')
      with eq have "map ascii_upper cs = pre' @ map ascii_upper p @ post" by simp
      then have "regex_test_ci p cs" using Cons.IH by blast
      then show ?thesis by simp
    qed
  qed
qed

lemma upper_LISTENING: "map ascii_upper ''LISTENING'' = ''LISTENING''"
  by (simp add: ascii_upper_def)

lemma is_listening_state_iff:
  "is_listening_state st \<longleftrightarrow>
     (\<exists>pre post. map ascii_upper st = pre @ ''LISTENING'' @ post) \<or> st = ''LISTEN''"
  unfolding is_listening_state_def regex_test_ci_iff upper_LISTENING ..

lemma listeners_loop_eq:
  "listeners_loop ls acc =
     Inr (acc @ map listener_of_row
        (filter (\<lambda>parts. 5 \<le> length parts \<and> is_listening_state (parts ! 3)) (map columns ls)))"
proof (induction ls arbitrary: acc)
  case Nil
  show ?case by simp
next
  case (Cons l ls)
  show ?case
    by (simp add: Cons.IH Let_def js_index_def or_empty_def parseAddressPort_def
        listener_of_row_def split: prod.splits)
qed

lemma last_index_from_absent: "c \<notin> set s \<Longrightarrow> last_index_from c s k b = b"
  by (induction s arbitrary: k b) auto

lemma last_index_from_last:
  "c \<notin> set ys \<Longrightarrow> last_index_from c (xs @ c # ys) k b = int (k + length xs)"
  by (induction xs arbitrary: k b) (auto simp: last_index_from_absent)

lemma addr_port_no_colon: "CHR '':'' \<notin> set t \<Longrightarrow> addr_port t = (t, [])"
  by (simp add: addr_port_def lastIndexOf_def last_index_from_absent)

text \<open>
  Claim C7, as the code has it. For every raw socket-table text, getListeningPorts
  returns, in the order of the text, exactly the rows (lines after the four header
  lines that are not blank and have at least five columns) whose state column contains
  LISTENING in any letter case, or is exactly the upper-case word LISTEN; each such row
  gives one record, and no other row gives any.
\<close>

theorem getListeningPorts_listening_rows:
  "getListeningPorts (ExecOk text) =
     Inr (map listener_of_row
       (filter (\<lambda>parts. 5 \<le> length parts \<and>
                  ((\<exists>pre post. map ascii_upper (parts ! 3) = pre @ ''LISTENING'' @ post)
                   \<or> parts ! 3 = ''LISTEN''))
          (map columns (data_lines text))))"
  by (simp add: getListeningPorts_def listeners_loop_eq is_listening_state_iff)

text \<open>The theorem at the table of five rows: the states LISTENING, Listening and LISTEN
  are kept, ESTABLISHED and listen are not.\<close>

theorem getListeningPorts_listening_rows_witness:
  "getListeningPorts (ExecOk listen_table)
   = Inr [\<lparr>proto = Some ''TCP'', localAddress = Some ''0.0.0.0'', localPort = Some ''135'',
            pid = Some ''1044''\<rparr>,
          \<lparr>proto = Some ''TCP'', localAddress = Some ''0.0.0.0'', localPort = Some ''445'',
            pid = Some ''4''\<rparr>,
          \<lparr>proto = Some ''tcp'', localAddress = Some ''0.0.0.0'', localPort = Some ''22'',
            pid = Some ''77''\<rparr>]
   \<and> getListeningPorts (ExecOk listen_table)
   = Inr (map listener_of_row
       (filter (\<lambda>parts. 5 \<le> length parts \<and>
                  ((\<exists>pre post. map ascii_upper (parts ! 3) = pre @ ''LISTENING'' @ post)
                   \<or> parts ! 3 = ''LISTEN''))
          (map columns (data_lines listen_table))))"
proof
  show "getListeningPorts (ExecOk listen_table)
   = Inr [\<lparr>proto = Some ''TCP'', localAddress = Some ''0.0.0.0'', localPort = Some ''135'',
            pid = Some ''1044''\<rparr>,
          \<lparr>proto = Some ''TCP'', localAddress = Some ''0.0.0.0'', localPort = Some ''445'',
            pid = Some ''4''\<rparr>,
          \<lparr>proto = Some ''tcp'', localAddress = Some ''0.0.0.0'', localPort = Some ''22'',
            pid = Some ''77''\<rparr>]"
    by code_simp
next
  show "getListeningPorts (ExecOk listen_table)
   = Inr (map listener_of_row
       (filter (\<lambda>parts. 5 \<le> length parts \<and>
                  ((\<exists>pre post. map ascii_upper (parts ! 3) = pre @ ''LISTENING'' @ post)
                   \<or> parts ! 3 = ''LISTEN''))
          (map columns (data_lines listen_table))))"
    by (rule getListeningPorts_listening_rows)
qed

text \<open>Claim C7 as the spec words it fails: a row whose state is the abbreviated spelling
  in lower case is not returned.\<close>

theorem getListeningPorts_lowercase_listen_counterexample:
  "columns ''  tcp    0.0.0.0:80       0.0.0.0:0        listen         78'' ! 3 = ''listen''
   \<and> map ascii_upper ''listen'' = ''LISTEN''
   \<and> getListeningPorts (ExecOk (netstat_header
         @ ''  tcp    0.0.0.0:80       0.0.0.0:0        listen         78'' @ crlf)) = Inr []"
  by code_simp

lemma listeners_loop_short_rows:
  "listeners_loop (filter (\<lambda>l. 5 \<le> length (columns l)) ls) acc = listeners_loop ls acc"
  unfolding listeners_loop_eq
  by (induction ls) auto

lemma listener_of_row_fields:
  "proto (listener_of_row parts) \<noteq> None \<and> localAddress (listener_of_row parts) \<noteq> None
   \<and> localPort (listener_of_row parts) \<noteq> None \<and> pid (listener_of_row parts) \<noteq> None"
  by (simp add: listener_of_row_def)

text \<open>
  Claim C8. For every raw socket-table text the parsing returns a list and throws
  nothing; every field of every record returned is a defined value; the lines with
  fewer than five columns change nothing (the result is that of the loop run without
  them); and an address token without a colon is split into the token and the empty
  string.
\<close>

theorem getListeningPorts_total:
  "(\<exists>ls. getListeningPorts (ExecOk text) = Inr ls
        \<and> (\<forall>r \<in> set ls. proto r \<noteq> None \<and> localAddress r \<noteq> None
                          \<and> localPort r \<noteq> None \<and> pid r \<noteq> None))
   \<and> getListeningPorts (ExecOk text)
       = listeners_loop (filter (\<lambda>l. 5 \<le> length (columns l)) (data_lines text)) []
   \<and> (\<forall>t. CHR '':'' \<notin> set t \<longrightarrow> parseAddressPort (Some t) = Inr (t, []))"
proof (intro conjI)
  show "\<exists>ls. getListeningPorts (ExecOk text) = Inr ls
        \<and> (\<forall>r \<in> set ls. proto r \<noteq> None \<and> localAddress r \<noteq> None
                          \<and> localPort r \<noteq> None \<and> pid r \<noteq> None)"
    using listener_of_row_fields by (auto simp: getListeningPorts_def listeners_loop_eq)
next
  show "getListeningPorts (ExecOk text)
       = listeners_loop (filter (\<lambda>l. 5 \<le> length (columns l)) (data_lines text)) []"
    by (simp add: getListeningPorts_def listeners_loop_short_rows)
next
  show "\<forall>t. CHR '':'' \<notin> set t \<longrightarrow> parseAddressPort (Some t) = Inr (t, [])"
    by (simp add: parseAddressPort_def addr_port_no_colon)
qed

text \<open>The theorem at a table with a four-column row, a row of one column and a
  listening row whose local address is \<^verbatim>\<open>localhost\<close>.\<close>

theorem getListeningPorts_total_witness:
  "getListeningPorts (ExecOk short_row_table)
     = Inr [\<lparr>proto = Some ''TCP'', localAddress = Some ''localhost'', localPort = Some [],
              pid = Some ''4''\<rparr>]
   \<and> length (columns ''  UDP    0.0.0.0:500      *:*              1234'') = 4
   \<and> parseAddressPort (Some ''localhost'') = Inr (''localhost'', [])
   \<and> (\<exists>ls. getListeningPorts (ExecOk short_row_table) = Inr ls
         \<and> list_all (\<lambda>r. proto r \<noteq> None \<and> localAddress r \<noteq> None
                          \<and> localPort r \<noteq> None \<and> pid r \<noteq> None) ls)"
proof (intro conjI)
  show "getListeningPorts (ExecOk short_row_table)
     = Inr [\<lparr>proto = Some ''TCP'', localAddress = Some ''localhost'', localPort = Some [],
              pid = Some ''4''\<rparr>]"
    by code_simp
next
  show "length (columns ''  UDP    0.0.0.0:500      *:*              1234'') = 4"
    by code_simp
next
  have "CHR '':'' \<notin> set ''localhost''" by simp
  with getListeningPorts_total [of short_row_table]
  show "parseAddressPort (Some ''localhost'') = Inr (''localhost'', [])" by blast
next
  from getListeningPorts_total [of short_row_table]
  show "\<exists>ls. getListeningPorts (ExecOk short_row_table) = Inr ls
         \<and> list_all (\<lambda>r. proto r \<noteq> None \<and> localAddress r \<noteq> None
                          \<and> localPort r \<noteq> None \<and> pid r \<noteq> None) ls"
    unfolding list_all_iff by blast
qed

section \<open>Properties of the port comparison\<close>

lemma js_Set_add_set: "set (js_Set_add acc xs) = set acc \<union> set xs"
  by (induction xs arbitrary: acc) auto

lemma js_Set_add_distinct: "distinct acc \<Longrightarrow> distinct (js_Set_add acc xs)"
  by (induction xs arbitrary: acc) auto

lemma js_Set_set: "set (js_Set xs) = set xs"
  by (simp add: js_Set_def js_Set_add_set)

lemma js_Set_distinct: "distinct (js_Set xs)"
  by (simp add: js_Set_def js_Set_add_distinct)

lemma js_Set_add_id: "distinct (acc @ xs) \<Longrightarrow> js_Set_add acc xs = acc @ xs"
  by (induction xs arbitrary: acc) auto

lemma js_Set_id: "distinct xs \<Longrightarrow> js_Set xs = xs"
  by (simp add: js_Set_def js_Set_add_id)

lemma length_filter_diff:
  assumes "distinct xs"
  shows "length (filter (\<lambda>p. p \<notin> B) xs) = card (set xs - B)"
proof -
  have "distinct (filter (\<lambda>p. p \<notin> B) xs)" using assms by simp
  then have "card (set (filter (\<lambda>p. p \<notin> B) xs)) = length (filter (\<lambda>p. p \<notin> B) xs)"
    by (rule distinct_card)
  moreover have "set (filter (\<lambda>p. p \<notin> B) xs) = set xs - B" by auto
  ultimately show ?thesis by simp
qed

lemma card_diff_balance:
  fixes A B :: "'a set"
  assumes "finite A" "finite B"
  shows "int (card (A - B)) - int (card (B - A)) = int (card A) - int (card B)"
proof -
  have a: "card (A - B) + card (A \<inter> B) = card A"
    using assms(1) by (simp add: card_Diff_subset_Int card_mono Int_lower1)
  have "card (B - A) + card (B \<inter> A) = card B"
    using assms(2) by (simp add: card_Diff_subset_Int card_mono Int_lower1)
  then have b: "card (B - A) + card (A \<inter> B) = card B"
    by (simp add: Int_commute)
  show ?thesis using a b by linarith
qed

lemma filter_diff_balance:
  assumes "distinct A" "distinct B"
  shows "int (length (filter (\<lambda>p. p \<notin> set B) A)) - int (length (filter (\<lambda>p. p \<notin> set A) B))
         = int (length A) - int (length B)"
  using card_diff_balance [of "set A" "set B"] assms
  by (simp add: length_filter_diff distinct_card)

lemma comparison_fields:
  "newPorts (comparison before after)
     = filter (\<lambda>p. p \<notin> set (js_Set (map port_key before))) (js_Set (map port_key after))"
  "removedPorts (comparison before after)
     = filter (\<lambda>p. p \<notin> set (js_Set (map port_key after))) (js_Set (map port_key before))"
  "netChange (comparison before after) = int (length after) - int (length before)"
  by (simp_all add: comparison_def Let_def)

lemma comparison_balance:
  assumes db: "distinct (map port_key before)" and da: "distinct (map port_key after)"
  shows "netChange (comparison before after) = int (length (newPorts (comparison before after))) - int (length (removedPorts (comparison before after)))"
  unfolding comparison_fields js_Set_id [OF da] js_Set_id [OF db]
  using filter_diff_balance [OF da db] by simp

text \<open>
  Claim C5, as the code has it. For every pair of snapshots, netChange is the number of
  records after minus the number of records before; it equals the number of new keys
  minus the number of removed keys whenever neither snapshot holds two records with the
  same address:port key.
\<close>

theorem comparison_netChange:
  "netChange (comparison before after) = int (length after) - int (length before)
   \<and> (distinct (map port_key before) \<and> distinct (map port_key after) \<longrightarrow>
        netChange (comparison before after)
          = int (length (newPorts (comparison before after)))
            - int (length (removedPorts (comparison before after))))"
  using comparison_balance [of before after] by (simp add: comparison_fields)

text \<open>The theorem at the snapshots of the spec's example: port 135 before, ports 135
  and 52000 after.\<close>

theorem comparison_netChange_witness:
  "distinct (map port_key [tcp_listener ''0.0.0.0'' ''135'' ''4''])
   \<and> distinct (map port_key [tcp_listener ''0.0.0.0'' ''135'' ''4'',
                               tcp_listener ''0.0.0.0'' ''52000'' ''812''])
   \<and> netChange (comparison [tcp_listener ''0.0.0.0'' ''135'' ''4'']
         [tcp_listener ''0.0.0.0'' ''135'' ''4'', tcp_listener ''0.0.0.0'' ''52000'' ''812''])
       = int (length (newPorts (comparison [tcp_listener ''0.0.0.0'' ''135'' ''4'']
           [tcp_listener ''0.0.0.0'' ''135'' ''4'', tcp_listener ''0.0.0.0'' ''52000'' ''812''])))
         - int (length (removedPorts (comparison [tcp_listener ''0.0.0.0'' ''135'' ''4'']
           [tcp_listener ''0.0.0.0'' ''135'' ''4'', tcp_listener ''0.0.0.0'' ''52000'' ''812''])))
   \<and> netChange (comparison [tcp_listener ''0.0.0.0'' ''135'' ''4'']
         [tcp_listener ''0.0.0.0'' ''135'' ''4'', tcp_listener ''0.0.0.0'' ''52000'' ''812''])
       = 1"
proof -
  have d1: "distinct (map port_key [tcp_listener ''0.0.0.0'' ''135'' ''4''])"
    by simp
  have d2: "distinct (map port_key [tcp_listener ''0.0.0.0'' ''135'' ''4'',
                                    tcp_listener ''0.0.0.0'' ''52000'' ''812''])"
    by (simp add: port_key_def tcp_listener_def js_str_def)
  from comparison_netChange [of "[tcp_listener ''0.0.0.0'' ''135'' ''4'']"
      "[tcp_listener ''0.0.0.0'' ''135'' ''4'', tcp_listener ''0.0.0.0'' ''52000'' ''812'']"]
    d1 d2
  show ?thesis by simp
qed

text \<open>Claim C5 as the spec words it fails: port 135 is held by one socket before and by
  two sockets (two processes) after; one record more, no key new, no key removed.\<close>

theorem comparison_netChange_counterexample:
  "netChange (comparison [tcp_listener ''0.0.0.0'' ''135'' ''4'']
       [tcp_listener ''0.0.0.0'' ''135'' ''4'', tcp_listener ''0.0.0.0'' ''135'' ''812'']) = 1
   \<and> int (length (newPorts (comparison [tcp_listener ''0.0.0.0'' ''135'' ''4'']
         [tcp_listener ''0.0.0.0'' ''135'' ''4'', tcp_listener ''0.0.0.0'' ''135'' ''812''])))
       - int (length (removedPorts (comparison [tcp_listener ''0.0.0.0'' ''135'' ''4'']
         [tcp_listener ''0.0.0.0'' ''135'' ''4'', tcp_listener ''0.0.0.0'' ''135'' ''812''])))
       = 0"
  by (simp add: comparison_def js_Set_def port_key_def tcp_listener_def js_str_def)

text \<open>
  Claim C6. For every pair of snapshots, newPorts holds exactly the address:port keys
  of the after snapshot that are not keys of the before snapshot, and removedPorts
  exactly the keys of the before snapshot that are not keys of the after snapshot, each
  key once; for the snapshots of the example (whatever protocol and process the records
  name) the result is newPorts = [0.0.0.0:52000], removedPorts = [], netChange = 1.
\<close>

theorem comparison_new_removed:
  "set (newPorts (comparison before after)) = port_key ` set after - port_key ` set before
   \<and> distinct (newPorts (comparison before after))
   \<and> set (removedPorts (comparison before after)) = port_key ` set before - port_key ` set after
   \<and> distinct (removedPorts (comparison before after))
   \<and> comparison
         [\<lparr>proto = pr1, localAddress = Some ''0.0.0.0'', localPort = Some ''135'', pid = pd1\<rparr>]
         [\<lparr>proto = pr2, localAddress = Some ''0.0.0.0'', localPort = Some ''135'', pid = pd2\<rparr>,
          \<lparr>proto = pr3, localAddress = Some ''0.0.0.0'', localPort = Some ''52000'', pid = pd3\<rparr>]
       = \<lparr>newPorts = [''0.0.0.0:52000''], removedPorts = [], netChange = 1\<rparr>"
proof (intro conjI)
  show "set (newPorts (comparison before after)) = port_key ` set after - port_key ` set before"
    by (auto simp: comparison_fields js_Set_set)
  show "distinct (newPorts (comparison before after))"
    by (simp add: comparison_fields js_Set_distinct)
  show "set (removedPorts (comparison before after))
          = port_key ` set before - port_key ` set after"
    by (auto simp: comparison_fields js_Set_set)
  show "distinct (removedPorts (comparison before after))"
    by (simp add: comparison_fields js_Set_distinct)
  show "comparison
         [\<lparr>proto = pr1, localAddress = Some ''0.0.0.0'', localPort = Some ''135'', pid = pd1\<rparr>]
         [\<lparr>proto = pr2, localAddress = Some ''0.0.0.0'', localPort = Some ''135'', pid = pd2\<rparr>,
          \<lparr>proto = pr3, localAddress = Some ''0.0.0.0'', localPort = Some ''52000'', pid = pd3\<rparr>]
       = \<lparr>newPorts = [''0.0.0.0:52000''], removedPorts = [], netChange = 1\<rparr>"
    by (simp add: comparison_def js_Set_def port_key_def js_str_def)
qed

text \<open>The theorem at snapshots where one port goes, one stays and one comes.\<close>

theorem comparison_new_removed_witness:
  "set (newPorts (comparison
         [tcp_listener ''0.0.0.0'' ''135'' ''4'', tcp_listener ''127.0.0.1'' ''8080'' ''60'']
         [tcp_listener ''0.0.0.0'' ''135'' ''4'', tcp_listener ''0.0.0.0'' ''52000'' ''812'']))
     = {''0.0.0.0:52000''}
   \<and> set (removedPorts (comparison
         [tcp_listener ''0.0.0.0'' ''135'' ''4'', tcp_listener ''127.0.0.1'' ''8080'' ''60'']
         [tcp_listener ''0.0.0.0'' ''135'' ''4'', tcp_listener ''0.0.0.0'' ''52000'' ''812'']))
     = {''127.0.0.1:8080''}"
proof -
  have k: "port_key ` set [tcp_listener ''0.0.0.0'' ''135'' ''4'',
                            tcp_listener ''127.0.0.1'' ''8080'' ''60'']
             = {''0.0.0.0:135'', ''127.0.0.1:8080''}"
    "port_key ` set [tcp_listener ''0.0.0.0'' ''135'' ''4'',
                      tcp_listener ''0.0.0.0'' ''52000'' ''812'']
             = {''0.0.0.0:135'', ''0.0.0.0:52000''}"
    by (simp_all add: port_key_def tcp_listener_def js_str_def)
  have d: "{''0.0.0.0:135'', ''0.0.0.0:52000''} - {''0.0.0.0:135'', ''127.0.0.1:8080''}
             = {''0.0.0.0:52000''}"
    "{''0.0.0.0:135'', ''127.0.0.1:8080''} - {''0.0.0.0:135'', ''0.0.0.0:52000''}
             = {''127.0.0.1:8080''}"
    by auto
  from comparison_new_removed
      [of "[tcp_listener ''0.0.0.0'' ''135'' ''4'', tcp_listener ''127.0.0.1'' ''8080'' ''60'']"
          "[tcp_listener ''0.0.0.0'' ''135'' ''4'', tcp_listener ''0.0.0.0'' ''52000'' ''812'']"]
  show ?thesis unfolding k d by blast
qed

section \<open>Properties of the endpoint normalization\<close>

lemma lastIndexOf_absent: "c \<notin> set s \<Longrightarrow> lastIndexOf s c = - 1"
  by (simp add: lastIndexOf_def last_index_from_absent)

lemma lastIndexOf_last: "c \<notin> set ys \<Longrightarrow> lastIndexOf (xs @ c # ys) c = int (length xs)"
  by (simp add: lastIndexOf_def last_index_from_last)

lemma colon_not_digit: "list_all is_digit d \<Longrightarrow> CHR '':'' \<notin> set d"
proof
  assume a: "list_all is_digit d" and "CHR '':'' \<in> set d"
  then have "is_digit (CHR '':'')" by (simp add: list_all_iff)
  then show False by (simp add: is_digit_def)
qed

lemma host_port_match_iff: "host_port_match s = Some (h, d) \<longleftrightarrow> host_digits s h d"
proof
  assume m: "host_port_match s = Some (h, d)"
  show "host_digits s h d"
  proof (cases "CHR '':'' \<in> set s")
    case False
    then have "lastIndexOf s (CHR '':'') = - 1" by (rule lastIndexOf_absent)
    with m show ?thesis by (simp add: host_port_match_def)
  next
    case True
    then obtain xs ys where s: "s = xs @ CHR '':'' # ys" and ys: "CHR '':'' \<notin> set ys"
      by (auto dest: split_list_last)
    have idx: "lastIndexOf s (CHR '':'') = int (length xs)"
      unfolding s using ys by (rule lastIndexOf_last)
    have tk: "take (length xs) s = xs" "drop (Suc (length xs)) s = ys" by (simp_all add: s)
    from m have "h = xs \<and> d = ys \<and> ys \<noteq> [] \<and> list_all is_digit ys
        \<and> list_all (\<lambda>c. \<not> is_line_terminator c) xs \<and> xs \<noteq> []"
      unfolding host_port_match_def idx Let_def
      by (simp add: tk split: if_splits)
    then show ?thesis by (simp add: host_digits_def s)
  qed
next
  assume "host_digits s h d"
  then have s: "s = h @ CHR '':'' # d" and h: "h \<noteq> []"
    and hl: "list_all (\<lambda>c. \<not> is_line_terminator c) h" and d: "d \<noteq> []"
    and dd: "list_all is_digit d"
    by (simp_all add: host_digits_def)
  have idx: "lastIndexOf s (CHR '':'') = int (length h)"
    unfolding s using colon_not_digit [OF dd] by (rule lastIndexOf_last)
  have tk: "take (length h) s = h" "drop (Suc (length h)) s = d" by (simp_all add: s)
  show "host_port_match s = Some (h, d)"
    unfolding host_port_match_def idx Let_def using h hl d dd by (simp add: tk)
qed

lemma host_port_match_None: "host_port_match s = None \<longleftrightarrow> (\<forall>h d. \<not> host_digits s h d)"
proof -
  have "host_port_match s = None \<longleftrightarrow> (\<forall>h d. host_port_match s \<noteq> Some (h, d))"
    by (cases "host_port_match s") auto
  then show ?thesis by (simp add: host_port_match_iff)
qed

lemma normalizeEndpoint_cases:
  "normalizeEndpoint srv p =
     (if srv = [] then Inl (Error ''server missing'')
      else case host_port_match (strip_scheme (trim srv)) of
             Some (h, d) \<Rightarrow>
               Inr (''opc.tcp://'' @ h @ '':'' @ (if port_missing p then d else port_text p))
           | None \<Rightarrow>
               if port_missing p then Inl (Error ''port missing'')
               else Inr (''opc.tcp://'' @ strip_scheme (trim srv) @ '':'' @ port_text p))"
proof (cases "host_port_match (strip_scheme (trim srv))")
  case None
  then show ?thesis
    by (simp add: normalizeEndpoint_def strip_scheme_def Let_def)
next
  case (Some hd)
  obtain h d where hd: "hd = (h, d)" by (cases hd)
  from Some [unfolded hd] have "host_digits (strip_scheme (trim srv)) h d"
    by (simp add: host_port_match_iff)
  then have "d \<noteq> []" by (simp add: host_digits_def)
  with Some hd show ?thesis
    by (simp add: normalizeEndpoint_def strip_scheme_def Let_def port_missing_def port_text_def)
qed

lemma show_nat_4840: "show_nat 4840 = ''4840''"
  by (simp add: show_nat.simps digit_char_def)

lemma port_4840:
  "port_text (PortNum 4840) = ''4840''"
  "\<not> port_missing (PortNum 4840)"
  by (simp_all add: port_text_def port_missing_def show_nat_4840)

lemma strip_trim_samples:
  "strip_scheme (trim ''opc.tcp://10.0.0.5:4840'') = ''10.0.0.5:4840''"
  "strip_scheme (trim ''10.0.0.5'') = ''10.0.0.5''"
  "strip_scheme (trim ''  OPC.TCP://plc-7:4841  '') = ''plc-7:4841''"
  "strip_scheme (trim ''opc.tcp://'') = []"
  by (simp_all add: strip_scheme_def trim_def is_space_def ascii_lower_def)

lemma host_port_match_samples:
  "host_port_match ''10.0.0.5:4840'' = Some (''10.0.0.5'', ''4840'')"
  "host_port_match ''10.0.0.5'' = None"
  "host_port_match [] = None"
  by (simp_all add: host_port_match_def lastIndexOf_def is_digit_def is_line_terminator_def)

text \<open>
  Claim C3. normalizeEndpoint trims the server text, takes off a leading
  \<^verbatim>\<open>opc.tcp://\<close> in any letter case, splits a rest of the form host:digits and uses
  the digits as the port only when no port was supplied; the three examples of the
  spec evaluate as the spec says. But the test for a missing server is made once, on
  the text as given, before it is trimmed and stripped, whereas the test for a missing
  port is made after the extraction. For the text \<^verbatim>\<open>opc.tcp://\<close> and for a text of
  spaces, with the port 4840, the host is empty after trimming and stripping, and the
  call returns \<^verbatim>\<open>opc.tcp://:4840\<close>, a URL without a host, where the function is to
  return \<^verbatim>\<open>opc.tcp://host:port\<close> or to fail.
\<close>

theorem normalizeEndpoint_empty_host:
  "strip_scheme (trim ''opc.tcp://'') = []
   \<and> normalizeEndpoint ''opc.tcp://'' (PortNum 4840) = Inr ''opc.tcp://:4840''
   \<and> strip_scheme (trim ''   '') = []
   \<and> normalizeEndpoint ''   '' (PortNum 4840) = Inr ''opc.tcp://:4840''
   \<and> normalizeEndpoint [] (PortNum 4840) = Inl (Error ''server missing'')
   \<and> normalizeEndpoint ''opc.tcp://10.0.0.5:4840'' PortUnset = Inr ''opc.tcp://10.0.0.5:4840''
   \<and> normalizeEndpoint ''10.0.0.5'' (PortNum 4840) = Inr ''opc.tcp://10.0.0.5:4840''
   \<and> normalizeEndpoint ''10.0.0.5'' PortUnset = Inl (Error ''port missing'')"
proof -
  have sp: "strip_scheme (trim ''   '') = []"
    by (simp add: strip_scheme_def trim_def is_space_def)
  show ?thesis
    by (simp add: normalizeEndpoint_cases strip_trim_samples sp host_port_match_samples
        port_4840 port_missing_def)
qed

section \<open>Properties of the connection watcher\<close>

lemma attempts_loop_total: "\<exists>rows. attempts_loop ip now ls f = Inr (f @ rows)"
proof (induction ls arbitrary: f)
  case Nil
  show ?case by simp
next
  case (Cons l ls)
  show ?case
  proof (cases "5 \<le> length (columns l)")
    case False
    then show ?thesis using Cons.IH [of f] by simp
  next
    case True
    then have r: "js_index (columns l) 2 = Some (columns l ! 2)"
      and lo: "js_index (columns l) 1 = Some (columns l ! 1)"
      by (simp_all add: js_index_def)
    show ?thesis
    proof (cases "remote_matches ip (Some (columns l ! 2))")
      case (Inl e)
      then show ?thesis by (simp add: remote_matches_def split: option.splits if_splits)
    next
      case (Inr b)
      show ?thesis
      proof (cases b)
        case False
        with Inr True r show ?thesis using Cons.IH [of f] by (simp add: Let_def)
      next
        case b: True
        let ?rec = "\<lparr>proto = js_index (columns l) 0,
                    localAddress = Some (fst (addr_port (columns l ! 1))),
                    localPort = Some (snd (addr_port (columns l ! 1))),
                    pid = Some (or_empty (js_index (columns l) 4)),
                    timestamp = now,
                    remoteAddress = Some (fst (addr_port (columns l ! 2))),
                    remotePort = Some (snd (addr_port (columns l ! 2))),
                    state = Some (or_empty (js_index (columns l) 3))\<rparr>"
        have step: "attempts_loop ip now (l # ls) f = attempts_loop ip now ls (f @ [?rec])"
          using Inr True r lo b by (simp add: Let_def parseAddressPort_def case_prod_beta)
        obtain rows where "attempts_loop ip now ls (f @ [?rec]) = Inr ((f @ [?rec]) @ rows)"
          using Cons.IH by blast
        then have "attempts_loop ip now ls (f @ [?rec]) = Inr (f @ (?rec # rows))" by simp
        then show ?thesis unfolding step by blast
      qed
    qed
  qed
qed

lemma remote_matches_no_target:
  "ip = None \<or> ip = Some [] \<Longrightarrow> remote_matches ip r = Inr False"
  by (auto simp: remote_matches_def)

lemma attempts_loop_no_target:
  "ip = None \<or> ip = Some [] \<Longrightarrow> attempts_loop ip now ls f = Inr f"
  by (induction ls) (simp_all add: Let_def remote_matches_no_target)

lemma exec_callback_total: "\<exists>rows. exec_callback ip now r f = Inr (f @ rows)"
proof (cases r)
  case (ExecFailed m)
  then show ?thesis by (simp add: exec_callback_def)
next
  case (ExecOk out)
  then show ?thesis using attempts_loop_total [of ip now "data_lines out" f]
    by (simp add: exec_callback_def)
qed

lemma exec_callback_no_target:
  "ip = None \<or> ip = Some [] \<Longrightarrow> exec_callback ip now r f = Inr f"
  by (cases r) (simp_all add: exec_callback_def attempts_loop_no_target)

lemma run_callback_keeps:
  "ticks (run_callback ip c w) = ticks w" "sent (run_callback ip c w) = sent w"
  "crashed w = None \<Longrightarrow> crashed (run_callback ip c w) = None"
  using exec_callback_total [of ip "clock c" "outcome c" "found w"]
  by (auto simp: run_callback_def split: sum.splits)

lemma run_callback_no_target:
  "ip = None \<or> ip = Some [] \<Longrightarrow> found (run_callback ip c w) = found w"
  by (simp add: run_callback_def exec_callback_no_target)

lemma run_callbacks_keeps:
  "ticks (run_callbacks ip cs w) = ticks w" "sent (run_callbacks ip cs w) = sent w"
  "crashed w = None \<Longrightarrow> crashed (run_callbacks ip cs w) = None"
  by (induction cs arbitrary: w) (simp_all add: run_callback_keeps)

lemma run_callbacks_no_target:
  "ip = None \<or> ip = Some [] \<Longrightarrow> found (run_callbacks ip cs w) = found w"
  by (induction cs arbitrary: w) (simp_all add: run_callback_no_target)


lemma watch_loop_step:
  "crashed w = None \<Longrightarrow>
   watch_loop ip polls sched w =
     (if polls \<le> int (Suc (ticks w)) then tick polls w
      else watch_loop ip polls (tl sched) (run_callbacks ip (round_of sched) (tick polls w)))"
  by (subst watch_loop.simps) (simp add: Let_def tick_def round_of_def)

lemma tick_fields:
  "ticks (tick polls w) = Suc (ticks w)" "crashed (tick polls w) = crashed w"
  "found (tick polls w) = found w" "pending (tick polls w) = pending w @ [Suc (ticks w)]"
  "sent (tick polls w) = sent w @ [monitor_percent (Suc (ticks w)) polls]"
  by (simp_all add: tick_def)

lemma watch_loop_result:
  "crashed w = None \<Longrightarrow>
   crashed (watch_loop ip polls sched w) = None
   \<and> ticks (watch_loop ip polls sched w) = max (Suc (ticks w)) (nat polls)
   \<and> ticks (watch_loop ip polls sched w) \<in> set (pending (watch_loop ip polls sched w))
   \<and> sent (watch_loop ip polls sched w)
       = sent w @ map (\<lambda>i. monitor_percent i polls)
                    [Suc (ticks w) ..< Suc (max (Suc (ticks w)) (nat polls))]"
proof (induction "nat (polls - int (ticks w))" arbitrary: w sched rule: less_induct)
  case less
  note ok = \<open>crashed w = None\<close>
  show ?case
  proof (cases "polls \<le> int (Suc (ticks w))")
    case True
    then have m: "max (Suc (ticks w)) (nat polls) = Suc (ticks w)" by simp
    from True show ?thesis
      unfolding watch_loop_step [OF ok] m by (simp add: tick_fields ok)
  next
    case False
    let ?w3 = "run_callbacks ip (round_of sched) (tick polls w)"
    have t3: "ticks ?w3 = Suc (ticks w)" and s3: "sent ?w3 = sent (tick polls w)"
      and c3: "crashed ?w3 = None"
      by (simp_all add: run_callbacks_keeps tick_fields ok)
    have less': "nat (polls - int (ticks ?w3)) < nat (polls - int (ticks w))"
      using False t3 by simp
    have m: "max (Suc (ticks w)) (nat polls) = nat polls"
      "max (Suc (Suc (ticks w))) (nat polls) = nat polls"
      using False by simp_all
    have up: "[Suc (ticks w) ..< Suc (nat polls)]
                = Suc (ticks w) # [Suc (Suc (ticks w)) ..< Suc (nat polls)]"
      using False by (simp add: upt_conv_Cons)
    let ?r = "watch_loop ip polls (tl sched) ?w3"
    have eq: "watch_loop ip polls sched w = ?r"
      using False by (simp add: watch_loop_step [OF ok])
    from less.hyps [OF less' c3, of "tl sched"]
    have r1: "crashed ?r = None" and r2: "ticks ?r = nat polls"
      and r3: "ticks ?r \<in> set (pending ?r)"
      and r4: "sent ?r = sent ?w3 @ map (\<lambda>i. monitor_percent i polls)
                 [Suc (Suc (ticks w)) ..< Suc (nat polls)]"
      unfolding t3 m by blast+
    have "sent ?r = sent w @ map (\<lambda>i. monitor_percent i polls) [Suc (ticks w) ..< Suc (nat polls)]"
      unfolding r4 s3 up by (simp add: tick_fields)
    with r1 r2 r3 show ?thesis unfolding eq m by blast
  qed
qed

lemma watch_loop_no_target:
  "crashed w = None \<Longrightarrow> ip = None \<or> ip = Some [] \<Longrightarrow>
   found (watch_loop ip polls sched w) = found w"
proof (induction "nat (polls - int (ticks w))" arbitrary: w sched rule: less_induct)
  case less
  note ok = \<open>crashed w = None\<close> and ip = \<open>ip = None \<or> ip = Some []\<close>
  show ?case
  proof (cases "polls \<le> int (Suc (ticks w))")
    case True
    then show ?thesis unfolding watch_loop_step [OF ok] by (simp add: tick_fields)
  next
    case False
    let ?w3 = "run_callbacks ip (round_of sched) (tick polls w)"
    have t3: "ticks ?w3 = Suc (ticks w)" and c3: "crashed ?w3 = None"
      and f3: "found ?w3 = found w"
      by (simp_all add: run_callbacks_keeps run_callbacks_no_target [OF ip] tick_fields ok)
    have less': "nat (polls - int (ticks ?w3)) < nat (polls - int (ticks w))"
      using False t3 by simp
    from less.hyps [OF less' c3 ip, of "tl sched"] False show ?thesis
      unfolding watch_loop_step [OF ok] f3 by simp
  qed
qed

lemma ceil_div_6000: "ceil_div 6000 2000 = 3"
  by (simp add: ceil_div_def)

lemma watch_loop_facts:
  assumes "crashed w = None"
  shows "crashed (watch_loop ip polls sched w) = None"
    and "ticks (watch_loop ip polls sched w) = max (Suc (ticks w)) (nat polls)"
    and "max (Suc (ticks w)) (nat polls) \<in> set (pending (watch_loop ip polls sched w))"
    and "sent (watch_loop ip polls sched w)
           = sent w @ map (\<lambda>i. monitor_percent i polls)
                        [Suc (ticks w) ..< Suc (max (Suc (ticks w)) (nat polls))]"
proof -
  note r = watch_loop_result [OF assms, of ip polls sched]
  from r show "crashed (watch_loop ip polls sched w) = None" by blast
  from r show t: "ticks (watch_loop ip polls sched w) = max (Suc (ticks w)) (nat polls)"
    by blast
  from r have "ticks (watch_loop ip polls sched w) \<in> set (pending (watch_loop ip polls sched w))"
    by blast
  then show "max (Suc (ticks w)) (nat polls) \<in> set (pending (watch_loop ip polls sched w))"
    unfolding t .
  from r show "sent (watch_loop ip polls sched w)
           = sent w @ map (\<lambda>i. monitor_percent i polls)
                        [Suc (ticks w) ..< Suc (max (Suc (ticks w)) (nat polls))]"
    by blast
qed

lemma monitor_result:
  "crashed (monitorConnectionAttempts ip prt d sched) = None"
  "ticks (monitorConnectionAttempts ip prt d sched) = max 1 (nat (ceil_div d 2000))"
  "max 1 (nat (ceil_div d 2000)) \<in> set (pending (monitorConnectionAttempts ip prt d sched))"
  "sent (monitorConnectionAttempts ip prt d sched)
       = map (\<lambda>i. monitor_percent i (ceil_div d 2000))
           [1 ..< Suc (max 1 (nat (ceil_div d 2000)))]"
  unfolding monitorConnectionAttempts_def
  using watch_loop_facts
    [where w = "\<lparr>ticks = 0, found = [], pending = [], sent = [], crashed = None\<rparr>"
       and ip = ip and polls = "ceil_div d 2000" and sched = sched]
  by simp_all

text \<open>
  Claim C1, the code at the input that breaks it. The target is 10.0.0.5. A poll whose
  table has one row with the remote token 10.0.0.50:4840 records that row as a
  connection attempt, with remote address 10.0.0.50: the test is containment of the
  target text in the remote token, not equality of addresses. (A row with the remote
  token 10.0.0.5:4840 is recorded too, as the claim says.)
\<close>

theorem exec_callback_substring_match:
  "exec_callback (Some ''10.0.0.5'') now (ExecOk (netstat_header @ row_from_50 @ crlf)) []
     = Inr [\<lparr>proto = Some ''TCP'', localAddress = Some ''10.0.0.7'',
              localPort = Some ''49713'', pid = Some ''5120'', timestamp = now,
              remoteAddress = Some ''10.0.0.50'', remotePort = Some ''4840'',
              state = Some ''ESTABLISHED''\<rparr>]
   \<and> exec_callback (Some ''10.0.0.5'') now (ExecOk (netstat_header @ row_from_5 @ crlf)) []
     = Inr [\<lparr>proto = Some ''TCP'', localAddress = Some ''10.0.0.7'',
              localPort = Some ''49712'', pid = Some ''5120'', timestamp = now,
              remoteAddress = Some ''10.0.0.5'', remotePort = Some ''4840'',
              state = Some ''ESTABLISHED''\<rparr>]"
  by code_simp

text \<open>
  Claim C2, the code at the input that breaks it. With a duration of 6000 ms the
  watcher starts exactly three polls, whatever the target and the schedule; and
  whatever the schedule, the third poll is still outstanding when the promise is
  resolved: the resolving happens in the timer callback that started it. When every
  poll sees the same connection from the target and every callback runs before the
  next tick, the resolved array holds the observations of polls 1 and 2, in that order
  and both kept, and nothing of poll 3. The same holds for every duration: the last
  poll started, poll max(1, ceil(durationMs / 2000)), is outstanding at the resolve.
\<close>

theorem monitor_resolves_before_last_poll:
  "ticks (monitorConnectionAttempts ip prt 6000 sched) = 3
   \<and> 3 \<in> set (pending (monitorConnectionAttempts ip prt 6000 sched))
   \<and> max 1 (nat (ceil_div d 2000)) \<in> set (pending (monitorConnectionAttempts ip prt d sched))
   \<and> found (monitorConnectionAttempts (Some ''10.0.0.5'') prt 6000
        [[poll_done 1 t1 row_from_5], [poll_done 2 t2 row_from_5], [poll_done 3 t3 row_from_5]])
      = [\<lparr>proto = Some ''TCP'', localAddress = Some ''10.0.0.7'',
              localPort = Some ''49712'', pid = Some ''5120'', timestamp = t1,
              remoteAddress = Some ''10.0.0.5'', remotePort = Some ''4840'',
              state = Some ''ESTABLISHED''\<rparr>,
         \<lparr>proto = Some ''TCP'', localAddress = Some ''10.0.0.7'',
              localPort = Some ''49712'', pid = Some ''5120'', timestamp = t2,
              remoteAddress = Some ''10.0.0.5'', remotePort = Some ''4840'',
              state = Some ''ESTABLISHED''\<rparr>]
   \<and> pending (monitorConnectionAttempts (Some ''10.0.0.5'') prt 6000
        [[poll_done 1 t1 row_from_5], [poll_done 2 t2 row_from_5], [poll_done 3 t3 row_from_5]])
      = [3]"
proof (intro conjI)
  show "ticks (monitorConnectionAttempts ip prt 6000 sched) = 3"
    by (simp add: monitor_result ceil_div_6000)
  show "3 \<in> set (pending (monitorConnectionAttempts ip prt 6000 sched))"
    using monitor_result(3) [where d = 6000 and ip = ip and prt = prt and sched = sched]
    by (simp add: ceil_div_6000)
  show "max 1 (nat (ceil_div d 2000)) \<in> set (pending (monitorConnectionAttempts ip prt d sched))"
    by (rule monitor_result)
  show "found (monitorConnectionAttempts (Some ''10.0.0.5'') prt 6000
        [[poll_done 1 t1 row_from_5], [poll_done 2 t2 row_from_5], [poll_done 3 t3 row_from_5]])
      = [\<lparr>proto = Some ''TCP'', localAddress = Some ''10.0.0.7'',
              localPort = Some ''49712'', pid = Some ''5120'', timestamp = t1,
              remoteAddress = Some ''10.0.0.5'', remotePort = Some ''4840'',
              state = Some ''ESTABLISHED''\<rparr>,
         \<lparr>proto = Some ''TCP'', localAddress = Some ''10.0.0.7'',
              localPort = Some ''49712'', pid = Some ''5120'', timestamp = t2,
              remoteAddress = Some ''10.0.0.5'', remotePort = Some ''4840'',
              state = Some ''ESTABLISHED''\<rparr>]"
    by code_simp
  show "pending (monitorConnectionAttempts (Some ''10.0.0.5'') prt 6000
        [[poll_done 1 t1 row_from_5], [poll_done 2 t2 row_from_5], [poll_done 3 t3 row_from_5]])
      = [3]"
    by code_simp
qed

section \<open>Properties of the probe controller\<close>

subsection \<open>The progress values sent, whatever fails\<close>

text \<open>Every piece of the handler sends a fixed list of progress values when it ends
  with a value and an initial part of that list when it ends with an exception; the
  property is kept by sequencing, and by a \<^verbatim>\<open>try\<close> whose body and handler send none.
  In the \<^verbatim>\<open>try\<close> of the monitoring step the values are sent by the awaited watcher,
  which never throws, so that the \<^verbatim>\<open>try\<close> can be taken around what follows it.\<close>

lemmas action_defs = ret_def throw_def andThen_def tryCatch_def effect_def fromSum_def
  appendLog_def logError_def logWarning_def

lemma percents_append: "percents (xs @ ys) = percents xs @ percents ys"
  by (induction xs rule: percents.induct) simp_all

lemma emitsD:
  assumes "emits L m"
  shows "m p = (p1, Val x) \<Longrightarrow> percents (events p1) = percents (events p) @ map Some L"
    and "m p = (p1, Throw err) \<Longrightarrow>
           \<exists>n. percents (events p1) = percents (events p) @ map Some (take n L)"
    and "m p = (p1, Abort err) \<Longrightarrow>
           \<exists>n. percents (events p1) = percents (events p) @ map Some (take n L)"
  using assms [unfolded emits_def, THEN spec, of p] by simp_all

lemma emitsI:
  assumes "\<And>p p1 x. m p = (p1, Val x) \<Longrightarrow>
             percents (events p1) = percents (events p) @ map Some L"
    and "\<And>p p1 err. m p = (p1, Throw err) \<Longrightarrow>
           \<exists>n. percents (events p1) = percents (events p) @ map Some (take n L)"
    and "\<And>p p1 err. m p = (p1, Abort err) \<Longrightarrow>
           \<exists>n. percents (events p1) = percents (events p) @ map Some (take n L)"
  shows "emits L m"
  unfolding emits_def
proof
  fix p
  obtain p1 r where mp: "m p = (p1, r)" by (cases "m p")
  show "case m p of
            (p1, Val x) \<Rightarrow> percents (events p1) = percents (events p) @ map Some L
          | (p1, Throw err) \<Rightarrow>
              (\<exists>n. percents (events p1) = percents (events p) @ map Some (take n L))
          | (p1, Abort err) \<Rightarrow>
              (\<exists>n. percents (events p1) = percents (events p) @ map Some (take n L))"
  proof (cases r)
    case (Val x)
    with assms(1) [of p p1 x] mp show ?thesis by simp
  next
    case (Throw err)
    with assms(2) [of p p1 err] mp show ?thesis by simp
  next
    case (Abort err)
    with assms(3) [of p p1 err] mp show ?thesis by simp
  qed
qed

lemma prefix_left:
  "percents (events p1) = percents (events p) @ map Some (take n L1) \<Longrightarrow>
   \<exists>k. percents (events p1) = percents (events p) @ map Some (take k (L1 @ L2))"
proof -
  assume a: "percents (events p1) = percents (events p) @ map Some (take n L1)"
  have "take (min n (length L1)) (L1 @ L2) = take n L1" by (simp add: min_def)
  with a have "percents (events p1)
      = percents (events p) @ map Some (take (min n (length L1)) (L1 @ L2))" by simp
  then show ?thesis by (rule exI)
qed

lemma prefix_right:
  "percents (events p1) = percents (events p) @ map Some L1 \<Longrightarrow>
   percents (events p2) = percents (events p1) @ map Some (take n L2) \<Longrightarrow>
   \<exists>k. percents (events p2) = percents (events p) @ map Some (take k (L1 @ L2))"
proof -
  assume a: "percents (events p1) = percents (events p) @ map Some L1"
    and b: "percents (events p2) = percents (events p1) @ map Some (take n L2)"
  have "take (length L1 + n) (L1 @ L2) = L1 @ take n L2" by simp
  with a b have "percents (events p2)
      = percents (events p) @ map Some (take (length L1 + n) (L1 @ L2))" by simp
  then show ?thesis by (rule exI)
qed

lemma emits_andThen:
  assumes m: "emits L1 m" and f: "\<And>x. emits L2 (f x)"
  shows "emits (L1 @ L2) (andThen m f)"
proof (rule emitsI)
  fix p p2 y
  assume r: "andThen m f p = (p2, Val y)"
  obtain p1 r1 where mp: "m p = (p1, r1)" by (cases "m p")
  from r mp obtain x where x: "r1 = Val x" "f x p1 = (p2, Val y)"
    by (cases r1) (simp_all add: andThen_def)
  from emitsD(1) [OF m, of p p1 x] mp x
  have a: "percents (events p1) = percents (events p) @ map Some L1" by simp
  from emitsD(1) [OF f, of x p1 p2 y] x
  have b: "percents (events p2) = percents (events p1) @ map Some L2" by simp
  from a b show "percents (events p2) = percents (events p) @ map Some (L1 @ L2)" by simp
next
  fix p p2 err
  assume r: "andThen m f p = (p2, Throw err)"
  obtain p1 r1 where mp: "m p = (p1, r1)" by (cases "m p")
  show "\<exists>n. percents (events p2) = percents (events p) @ map Some (take n (L1 @ L2))"
  proof (cases r1)
    case (Val x)
    with r mp have fx: "f x p1 = (p2, Throw err)" by (simp add: andThen_def)
    from emitsD(1) [OF m, of p p1 x] mp Val
    have a: "percents (events p1) = percents (events p) @ map Some L1" by simp
    from emitsD(2) [OF f, of x p1 p2 err] fx
    obtain n where "percents (events p2) = percents (events p1) @ map Some (take n L2)"
      by blast
    with a show ?thesis by (rule prefix_right)
  next
    case (Throw err')
    with r mp have e: "p2 = p1" by (simp add: andThen_def)
    from emitsD(2) [OF m, of p p1 err'] mp Throw
    obtain n where "percents (events p1) = percents (events p) @ map Some (take n L1)"
      by blast
    then show ?thesis unfolding e by (rule prefix_left)
  next
    case (Abort err')
    with r mp show ?thesis by (simp add: andThen_def)
  qed
next
  fix p p2 err
  assume r: "andThen m f p = (p2, Abort err)"
  obtain p1 r1 where mp: "m p = (p1, r1)" by (cases "m p")
  show "\<exists>n. percents (events p2) = percents (events p) @ map Some (take n (L1 @ L2))"
  proof (cases r1)
    case (Val x)
    with r mp have fx: "f x p1 = (p2, Abort err)" by (simp add: andThen_def)
    from emitsD(1) [OF m, of p p1 x] mp Val
    have a: "percents (events p1) = percents (events p) @ map Some L1" by simp
    from emitsD(3) [OF f, of x p1 p2 err] fx
    obtain n where "percents (events p2) = percents (events p1) @ map Some (take n L2)"
      by blast
    with a show ?thesis by (rule prefix_right)
  next
    case (Abort err')
    with r mp have e: "p2 = p1" by (simp add: andThen_def)
    from emitsD(3) [OF m, of p p1 err'] mp Abort
    obtain n where "percents (events p1) = percents (events p) @ map Some (take n L1)"
      by blast
    then show ?thesis unfolding e by (rule prefix_left)
  next
    case (Throw err')
    with r mp show ?thesis by (simp add: andThen_def)
  qed
qed


lemma emits_andThen':
  "emits L1 m \<Longrightarrow> (\<And>x. emits L2 (f x)) \<Longrightarrow> L = L1 @ L2 \<Longrightarrow> emits L (andThen m f)"
  using emits_andThen [of L1 m L2 f] by simp

lemma emits_ret: "emits [] (ret x)"
  by (rule emitsI) (simp_all add: ret_def)

lemma emits_throw: "emits [] (throw err)"
  by (rule emitsI) (simp_all add: throw_def)

lemma emits_fromSum: "emits [] (fromSum r)"
  by (cases r) (simp_all add: fromSum_def emits_ret emits_throw)

lemma emits_appendLog: "emits [] (appendLog e s)"
  by (cases "log_write e s") (simp_all add: appendLog_def emits_ret emits_throw)

lemma emits_effect:
  "(\<And>p. percents (events (f p)) = percents (events p) @ map Some L) \<Longrightarrow> emits L (effect f)"
  by (rule emitsI) (auto simp: effect_def)

lemma emits_send_progress: "emits [k] (effect (send (Progress (Some k))))"
  by (rule emits_effect) (simp add: send_def percents_append)

lemma emits_send_other:
  "emits [] (effect (send (ResultPartial x)))"
  "emits [] (effect (send (ResultFinal y)))"
  "emits [] (effect (send (ErrorEvent z)))"
  by (rule emits_effect, simp add: send_def percents_append)+

lemma emits_silent:
  "emits [] (effect (call c))"
  "emits [] (effect (push_error err ctx))"
  "emits [] (effect (push_warning w ctx))"
  "emits [] (effect (\<lambda>p. p\<lparr>logged_comparison := v\<rparr>))"
  by (rule emits_effect, simp add: call_def push_error_def push_warning_def)+

lemma emits_logError: "emits [] (logError e err ctx s)"
  unfolding logError_def by (rule emits_andThen' emits_silent emits_appendLog | simp)+

lemma emits_logWarning: "emits [] (logWarning e w ctx s)"
  unfolding logWarning_def by (rule emits_andThen' emits_silent emits_appendLog | simp)+

lemma emits_tryCatch:
  assumes m: "emits [] m" and h: "\<And>err. emits [] (h err)"
  shows "emits [] (tryCatch m h)"
proof -
  have same: "percents (events (fst (tryCatch m h p))) = percents (events p)" for p
  proof -
    obtain p1 r where mp: "m p = (p1, r)" by (cases "m p")
    show ?thesis
    proof (cases r)
      case (Val x)
      with emitsD(1) [OF m, of p p1 x] mp show ?thesis by (simp add: tryCatch_def)
    next
      case (Abort err)
      with emitsD(3) [OF m, of p p1 err] mp show ?thesis by (simp add: tryCatch_def)
    next
      case (Throw err)
      with emitsD(2) [OF m, of p p1 err] mp
      have a: "percents (events p1) = percents (events p)" by simp
      obtain p2 r2 where hp: "h err p1 = (p2, r2)" by (cases "h err p1")
      have "percents (events p2) = percents (events p1)"
      proof (cases r2)
        case (Val x)
        with emitsD(1) [OF h, of err p1 p2 x] hp show ?thesis by simp
      next
        case (Throw err')
        with emitsD(2) [OF h, of err p1 p2 err'] hp show ?thesis by simp
      next
        case (Abort err')
        with emitsD(3) [OF h, of err p1 p2 err'] hp show ?thesis by simp
      qed
      with a show ?thesis by (simp add: tryCatch_def mp Throw hp)
    qed
  qed
  show ?thesis
  proof (rule emitsI)
    fix p p1 x
    assume "tryCatch m h p = (p1, Val x)"
    with same [of p] show "percents (events p1) = percents (events p) @ map Some []" by simp
  next
    fix p p1 err
    assume "tryCatch m h p = (p1, Throw err)"
    with same [of p]
    show "\<exists>n. percents (events p1) = percents (events p) @ map Some (take n [])" by simp
  next
    fix p p1 err
    assume "tryCatch m h p = (p1, Abort err)"
    with same [of p]
    show "\<exists>n. percents (events p1) = percents (events p) @ map Some (take n [])" by simp
  qed
qed

lemma emits_if: "emits L a \<Longrightarrow> emits L b \<Longrightarrow> emits L (if c then a else b)"
  by simp

lemma emits_case_subscription:
  "(\<And>n. emits L (a n)) \<Longrightarrow> (\<And>m. emits L (b m)) \<Longrightarrow>
   emits L (case sub of SubscriptionOk n \<Rightarrow> a n | SubscriptionFailed m \<Rightarrow> b m)"
  by (cases sub) simp_all

lemmas emits_intros = emits_andThen' emits_ret emits_throw emits_fromSum emits_appendLog
  emits_send_progress emits_send_other emits_silent emits_logError emits_logWarning
  emits_tryCatch emits_if emits_case_subscription

lemma emits_queryEndpoints: "emits [] (queryEndpoints e s prt)"
  unfolding queryEndpoints_def by (rule emits_intros | simp)+

lemma emits_createSubscriptionAndMonitor: "emits [] (createSubscriptionAndMonitor e cfg)"
  unfolding createSubscriptionAndMonitor_def by (rule emits_intros | simp)+

lemma emits_await_listeners: "emits [] (await_listeners r)"
  unfolding await_listeners_def by (rule emits_intros | simp)+

lemma emits_query_step: "emits [10] (query_step cfg e)"
  unfolding query_step_def
  by (rule emits_intros emits_queryEndpoints | simp)+

lemma emits_baseline_step: "emits [25] (baseline_step e)"
  unfolding baseline_step_def
  by (rule emits_intros emits_await_listeners | simp)+

lemma emits_subscribe_step: "emits [45] (subscribe_step cfg e)"
  unfolding subscribe_step_def
  by (rule emits_intros emits_createSubscriptionAndMonitor | simp)+

lemma emits_after_step: "emits [65] (after_step e b)"
  unfolding after_step_def
  by (rule emits_intros emits_await_listeners | simp)+


lemma round_div_15: "round_div (15 * int i) 15 = int i"
  by (simp add: round_div_def)

lemma monitor_percent_15: "monitor_percent i 15 = Some (75 + int i)"
  by (simp add: monitor_percent_def round_div_15)

lemma ceil_div_30000: "ceil_div 30000 2000 = 15"
  by (simp add: ceil_div_def)

lemma monitor_30s:
  "crashed (monitorConnectionAttempts ip prt 30000 sched) = None"
  "ticks (monitorConnectionAttempts ip prt 30000 sched) = 15"
  "sent (monitorConnectionAttempts ip prt 30000 sched)
     = map (\<lambda>i. Some (75 + int i)) [1 ..< 16]"
  unfolding monitor_result ceil_div_30000 monitor_percent_15 by simp_all

lemma monitor_no_target:
  "ip = None \<or> ip = Some [] \<Longrightarrow> found (monitorConnectionAttempts ip prt d sched) = []"
  unfolding monitorConnectionAttempts_def
  using watch_loop_no_target
    [where w = "\<lparr>ticks = 0, found = [], pending = [], sent = [], crashed = None\<rparr>"
       and ip = ip and polls = "ceil_div d 2000" and sched = sched]
  by simp

lemma await_monitor_result:
  "await_monitor e ip prt p =
     (p\<lparr>events := events p @ map (\<lambda>i. Progress (Some (75 + int i))) [1 ..< 16],
        calls := calls p @ replicate 15 CallNetstat\<rparr>,
      Val (found (monitorConnectionAttempts ip prt 30000 (netstat_polls e))))"
  by (simp add: await_monitor_def Let_def monitor_30s o_def del: upt_Suc)

lemma percents_map_Progress: "percents (map (\<lambda>i. Progress (f i)) xs) = map f xs"
  by (induction xs) simp_all

lemma emits_await_monitor:
  "emits (map (\<lambda>i. 75 + int i) [1 ..< 16]) (await_monitor e ip prt)"
  by (rule emitsI)
    (simp_all add: await_monitor_result percents_append percents_map_Progress o_def
       del: upt_Suc)

lemma tryCatch_andThen_await:
  "tryCatch (andThen (await_monitor e ip prt) f) h
     = andThen (await_monitor e ip prt) (\<lambda>x. tryCatch (f x) h)"
  by (rule ext) (simp add: tryCatch_def andThen_def await_monitor_result)

lemma emits_monitor_step:
  "emits (75 # map (\<lambda>i. 75 + int i) [1 ..< 16]) (monitor_step cfg e)"
  unfolding monitor_step_def tryCatch_andThen_await
  by (rule emits_intros emits_await_monitor | simp del: upt_Suc)+

lemma emits_pipeline: "emits checkpoints (pipeline cfg e)"
  unfolding pipeline_def checkpoints_def
  by (rule emits_intros emits_query_step emits_baseline_step emits_subscribe_step
      emits_after_step emits_monitor_step | simp del: upt_Suc)+

lemma emits_handler_body:
  "emits checkpoints
     (andThen (pipeline cfg e) (\<lambda>final.
      andThen (effect (send (ResultFinal final))) (\<lambda>u.
      andThen (appendLog e LogFinished) (\<lambda>u. ret 0))))"
  by (rule emits_intros emits_pipeline | simp)+

lemma emits_handler_catch:
  "emits []
     (andThen (logError e err ''Probe Execution'' LogFailed) (\<lambda>u.
      andThen (effect (send (ErrorEvent err))) (\<lambda>u. ret 1)))"
  by (rule emits_intros | simp)+

lemma upto_tryCatch:
  assumes m: "emits L m" and h: "\<And>err. emits [] (h err)"
  shows "\<exists>n. percents (events (fst (tryCatch m h p))) = percents (events p) @ map Some (take n L)"
proof -
  obtain p1 r where mp: "m p = (p1, r)" by (cases "m p")
  show ?thesis
  proof (cases r)
    case (Val x)
    with emitsD(1) [OF m, of p p1 x] mp
    have "percents (events (fst (tryCatch m h p)))
            = percents (events p) @ map Some (take (length L) L)"
      by (simp add: tryCatch_def)
    then show ?thesis by (rule exI)
  next
    case (Abort err)
    with emitsD(3) [OF m, of p p1 err] mp show ?thesis by (simp add: tryCatch_def)
  next
    case (Throw err)
    with emitsD(2) [OF m, of p p1 err] mp
    obtain n where a: "percents (events p1) = percents (events p) @ map Some (take n L)"
      by auto
    obtain p2 r2 where hp: "h err p1 = (p2, r2)" by (cases "h err p1")
    have "percents (events p2) = percents (events p1)"
    proof (cases r2)
      case (Val x)
      with emitsD(1) [OF h, of err p1 p2 x] hp show ?thesis by simp
    next
      case (Throw err')
      with emitsD(2) [OF h, of err p1 p2 err'] hp show ?thesis by simp
    next
      case (Abort err')
      with emitsD(3) [OF h, of err p1 p2 err'] hp show ?thesis by simp
    qed
    with a have "percents (events (fst (tryCatch m h p)))
                   = percents (events p) @ map Some (take n L)"
      by (simp add: tryCatch_def mp Throw hp)
    then show ?thesis by (rule exI)
  qed
qed

lemma handler_percents:
  "\<exists>n. percents (events (fst (handler cfg e p))) = percents (events p) @ map Some (take n checkpoints)"
proof (cases "log_write e LogStarted")
  case (Some err)
  then have "percents (events (fst (handler cfg e p)))
               = percents (events p) @ map Some (take 0 checkpoints)"
    by (simp add: handler_def appendLog_def andThen_def throw_def)
  then show ?thesis by (rule exI)
next
  case None
  let ?body = "andThen (pipeline cfg e) (\<lambda>final.
        andThen (effect (send (ResultFinal final))) (\<lambda>u.
        andThen (appendLog e LogFinished) (\<lambda>u. ret 0)))"
  let ?h = "\<lambda>err. andThen (logError e err ''Probe Execution'' LogFailed) (\<lambda>u.
               andThen (effect (send (ErrorEvent err))) (\<lambda>u. ret 1))"
  from None have eq: "handler cfg e p = tryCatch ?body ?h p"
    by (simp add: handler_def appendLog_def andThen_def ret_def)
  have b: "emits checkpoints ?body" by (rule emits_handler_body)
  have c: "emits [] (?h err)" for err by (rule emits_handler_catch)
  show ?thesis unfolding eq using b c by (rule upto_tryCatch)
qed

lemma run_probe_events: "events (fst (run_probe cfg e))
   = events (fst (handler cfg e
        \<lparr>events = [], errors = [], warnings = [], calls = [], logged_comparison = None\<rparr>))"
  by (simp add: run_probe_def split: prod.splits result.splits)

lemma run_probe_percents:
  "\<exists>n. percents (events (fst (run_probe cfg e))) = map Some (take n checkpoints)"
  unfolding run_probe_events
  using handler_percents
    [of cfg e "\<lparr>events = [], errors = [], warnings = [], calls = [], logged_comparison = None\<rparr>"]
  by simp


subsection \<open>The steps of a run whose log lines can be written\<close>

text \<open>The assumption of the lemmas leaves out the two sites after the summary
  (\<open>LogFinished\<close>, \<open>LogFailed\<close>), which the five steps do not reach.\<close>

lemma query_step_config_error:
  assumes ok: "\<And>s. s \<noteq> LogFinished \<Longrightarrow> s \<noteq> LogFailed \<Longrightarrow> log_write e s = None"
    and n: "normalizeEndpoint (server cfg) (port cfg) = Inl err"
  shows "query_step cfg e p = (send (Progress (Some 10)) p, Throw err)"
  by (simp add: query_step_def action_defs ok n)

lemma query_step_discovery_error:
  assumes ok: "\<And>s. s \<noteq> LogFinished \<Longrightarrow> s \<noteq> LogFailed \<Longrightarrow> log_write e s = None"
    and n: "normalizeEndpoint (server cfg) (port cfg) = Inr url"
    and d: "discover e url = Inl err"
  shows "query_step cfg e p
           = (push_error err ''Endpoint Query''
                (call (CallDiscover url) (send (Progress (Some 10)) p)), Throw err)"
  by (simp add: query_step_def queryEndpoints_def action_defs ok n d)

lemma query_step_ok:
  assumes ok: "\<And>s. s \<noteq> LogFinished \<Longrightarrow> s \<noteq> LogFailed \<Longrightarrow> log_write e s = None"
    and n: "normalizeEndpoint (server cfg) (port cfg) = Inr url"
    and d: "discover e url = Inr eps"
  shows "snd (query_step cfg e p) = Val eps"
    and "events (fst (query_step cfg e p))
           = events p @ [Progress (Some 10), ResultPartial (PEndpoints eps)]"
  by (simp_all add: query_step_def queryEndpoints_def action_defs ok n d send_def call_def
      push_warning_def)

lemma baseline_step_events:
  assumes ok: "\<And>s. s \<noteq> LogFinished \<Longrightarrow> s \<noteq> LogFailed \<Longrightarrow> log_write e s = None"
  shows "\<exists>ls. snd (baseline_step e p) = Val ls
     \<and> events (fst (baseline_step e p))
         = events p @ [Progress (Some 25), ResultPartial (PBeforeListeners ls)]"
  by (cases "getListeningPorts (netstat_before e)")
    (simp_all add: baseline_step_def await_listeners_def action_defs ok send_def call_def
      push_warning_def push_error_def)

lemma subscribe_step_events:
  assumes ok: "\<And>s. s \<noteq> LogFinished \<Longrightarrow> s \<noteq> LogFailed \<Longrightarrow> log_write e s = None"
  shows "\<exists>sub. snd (subscribe_step cfg e p) = Val sub
     \<and> events (fst (subscribe_step cfg e p))
         = events p @ [Progress (Some 45), ResultPartial (PSubscriptionResult sub)]"
  by (simp add: subscribe_step_def createSubscriptionAndMonitor_def action_defs ok send_def
      call_def push_error_def split: sum.splits option.splits)

lemma after_step_events:
  assumes ok: "\<And>s. s \<noteq> LogFinished \<Longrightarrow> s \<noteq> LogFailed \<Longrightarrow> log_write e s = None"
  shows "\<exists>ls. snd (after_step e b p) = Val ls
     \<and> events (fst (after_step e b p))
         = events p @ [Progress (Some 65), ResultPartial (PAfterListeners ls)]"
  by (cases "getListeningPorts (netstat_after e)")
    (simp_all add: after_step_def await_listeners_def action_defs ok send_def call_def
      push_warning_def push_error_def)

lemma monitor_step_result:
  assumes l1: "log_write e LogMonitoring = None" and l2: "log_write e LogMonitorResult = None"
  shows "monitor_step cfg e p =
     (p\<lparr>events := events p @ Progress (Some 75) # map (\<lambda>i. Progress (Some (75 + int i))) [1 ..< 16]
                    @ [ResultPartial (PConnections
                         (found (monitorConnectionAttempts
                            (or_null (extractHostFromEndpoint (url_hostname e) (server cfg)))
                            (port cfg) 30000 (netstat_polls e))))],
        calls := calls p @ replicate 15 CallNetstat\<rparr>,
      Val (found (monitorConnectionAttempts
                    (or_null (extractHostFromEndpoint (url_hostname e) (server cfg)))
                    (port cfg) 30000 (netstat_polls e))))"
  by (simp add: monitor_step_def tryCatch_andThen_await andThen_def await_monitor_result
      effect_def appendLog_def ret_def tryCatch_def l1 l2 send_def del: upt_Suc)

lemma pipeline_config_error:
  assumes ok: "\<And>s. s \<noteq> LogFinished \<Longrightarrow> s \<noteq> LogFailed \<Longrightarrow> log_write e s = None"
    and n: "normalizeEndpoint (server cfg) (port cfg) = Inl err"
  shows "pipeline cfg e p = (send (Progress (Some 10)) p, Throw err)"
  by (simp add: pipeline_def andThen_def query_step_config_error [OF ok n])

lemma pipeline_discovery_error:
  assumes ok: "\<And>s. s \<noteq> LogFinished \<Longrightarrow> s \<noteq> LogFailed \<Longrightarrow> log_write e s = None"
    and n: "normalizeEndpoint (server cfg) (port cfg) = Inr url"
    and d: "discover e url = Inl err"
  shows "pipeline cfg e p
           = (push_error err ''Endpoint Query''
                (call (CallDiscover url) (send (Progress (Some 10)) p)), Throw err)"
  by (simp add: pipeline_def andThen_def query_step_discovery_error [OF ok n d])

lemma pipeline_completed:
  assumes ok: "\<And>s. s \<noteq> LogFinished \<Longrightarrow> s \<noteq> LogFailed \<Longrightarrow> log_write e s = None"
    and n: "normalizeEndpoint (server cfg) (port cfg) = Inr url"
    and d: "discover e url = Inr eps"
  shows "\<exists>b s a c p5.
           pipeline cfg e p
             = (p5, Val \<lparr>endpoints = eps, beforeListeners = b, subscriptionResult = s,
                         afterListeners = a, connections = c\<rparr>)
           \<and> events p5 @ [ResultFinal \<lparr>endpoints = eps, beforeListeners = b,
                                        subscriptionResult = s, afterListeners = a,
                                        connections = c\<rparr>]
               = events p @ completed_trace eps b s a c"
proof -
  obtain p1 where q: "query_step cfg e p = (p1, Val eps)"
    and e1: "events p1 = events p @ [Progress (Some 10), ResultPartial (PEndpoints eps)]"
    using query_step_ok [OF ok n d, where p = p] by (cases "query_step cfg e p") auto
  obtain p2 b where bs: "baseline_step e p1 = (p2, Val b)"
    and e2: "events p2 = events p1 @ [Progress (Some 25), ResultPartial (PBeforeListeners b)]"
    using baseline_step_events [OF ok, of p1] by (cases "baseline_step e p1") auto
  obtain p3 s where ss: "subscribe_step cfg e p2 = (p3, Val s)"
    and e3: "events p3 = events p2 @ [Progress (Some 45), ResultPartial (PSubscriptionResult s)]"
    using subscribe_step_events [OF ok, of cfg p2] by (cases "subscribe_step cfg e p2") auto
  obtain p4 a where as: "after_step e b p3 = (p4, Val a)"
    and e4: "events p4 = events p3 @ [Progress (Some 65), ResultPartial (PAfterListeners a)]"
    using after_step_events [OF ok, of b p3] by (cases "after_step e b p3") auto
  obtain p5 c where ms: "monitor_step cfg e p4 = (p5, Val c)"
    and e5: "events p5 = events p4 @ Progress (Some 75)
               # map (\<lambda>i. Progress (Some (75 + int i))) [1 ..< 16]
               @ [ResultPartial (PConnections c)]"
    using monitor_step_result [of e cfg p4] by (simp add: ok)
  have "pipeline cfg e p
          = (p5, Val \<lparr>endpoints = eps, beforeListeners = b, subscriptionResult = s,
                      afterListeners = a, connections = c\<rparr>)"
    by (simp add: pipeline_def andThen_def q bs ss as ms appendLog_def ok ret_def)
  moreover have "events p5 @ [ResultFinal \<lparr>endpoints = eps, beforeListeners = b,
                                        subscriptionResult = s, afterListeners = a,
                                        connections = c\<rparr>]
               = events p @ completed_trace eps b s a c"
    by (simp add: completed_trace_def e1 e2 e3 e4 e5 del: upt_Suc)
  ultimately show ?thesis by blast
qed

subsection \<open>How a run ends\<close>

lemma run_probe_config_error:
  assumes ok: "\<And>s. log_write e s = None"
    and n: "normalizeEndpoint (server cfg) (port cfg) = Inl err"
  shows "events (fst (run_probe cfg e)) = [Progress (Some 10), ErrorEvent err]"
    and "errors (fst (run_probe cfg e)) = [(''Probe Execution'', err)]"
    and "calls (fst (run_probe cfg e)) = []"
    and "snd (run_probe cfg e) = Exited 1"
  by (simp_all add: run_probe_def handler_def andThen_def tryCatch_def appendLog_def ok ret_def
      effect_def logError_def pipeline_config_error [OF ok n] send_def push_error_def)

lemma run_probe_discovery_error:
  assumes ok: "\<And>s. log_write e s = None"
    and n: "normalizeEndpoint (server cfg) (port cfg) = Inr url"
    and d: "discover e url = Inl err"
  shows "events (fst (run_probe cfg e)) = [Progress (Some 10), ErrorEvent err]"
    and "errors (fst (run_probe cfg e))
           = [(''Endpoint Query'', err), (''Probe Execution'', err)]"
    and "warnings (fst (run_probe cfg e)) = []"
    and "calls (fst (run_probe cfg e)) = [CallDiscover url]"
    and "snd (run_probe cfg e) = Exited 1"
  by (simp_all add: run_probe_def handler_def andThen_def tryCatch_def appendLog_def ok ret_def
      effect_def logError_def pipeline_discovery_error [OF ok n d] send_def push_error_def
      call_def)

lemma run_probe_completed:
  assumes ok: "\<And>s. log_write e s = None"
    and n: "normalizeEndpoint (server cfg) (port cfg) = Inr url"
    and d: "discover e url = Inr eps"
  shows "\<exists>b s a c. events (fst (run_probe cfg e)) = completed_trace eps b s a c
                   \<and> snd (run_probe cfg e) = Exited 0"
proof -
  let ?p0 = "\<lparr>events = [], errors = [], warnings = [], calls = [], logged_comparison = None\<rparr>"
  from pipeline_completed [OF ok n d, of ?p0]
  obtain b s a c p5 where
    pl: "pipeline cfg e ?p0
             = (p5, Val \<lparr>endpoints = eps, beforeListeners = b, subscriptionResult = s,
                         afterListeners = a, connections = c\<rparr>)"
    and ev: "events p5 @ [ResultFinal \<lparr>endpoints = eps, beforeListeners = b,
                                        subscriptionResult = s, afterListeners = a,
                                        connections = c\<rparr>]
               = events ?p0 @ completed_trace eps b s a c"
    by blast
  have "events (fst (run_probe cfg e)) = completed_trace eps b s a c
        \<and> snd (run_probe cfg e) = Exited 0"
    using ev
    by (simp add: run_probe_def handler_def andThen_def tryCatch_def appendLog_def ok ret_def
        effect_def pl send_def)
  then show ?thesis by blast
qed




subsection \<open>Fatal discovery failure, progress order, monitoring without a target\<close>

lemma sorted_checkpoints: "sorted checkpoints"
proof -
  have "sorted_wrt (\<lambda>x y. 75 + int x \<le> 75 + int y) [1 ..< 16]"
    using sorted_upt [of 1 16] by (rule sorted_wrt_mono_rel [rotated]) simp
  then have "sorted (map (\<lambda>i. 75 + int i) [1 ..< 16])" by (simp add: sorted_map del: upt_Suc)
  then show ?thesis by (auto simp: checkpoints_def sorted_append simp del: upt_Suc)
qed

lemma percents_completed:
  "percents (completed_trace eps b s a c) = map Some checkpoints"
  by (simp add: completed_trace_def checkpoints_def percents_append percents_map_Progress
      del: upt_Suc)


lemma round_div_nonneg: "0 < b \<Longrightarrow> 0 \<le> a \<Longrightarrow> 0 \<le> round_div a b"
  by (simp add: round_div_def pos_imp_zdiv_nonneg_iff)

lemma round_div_mono: "0 < b \<Longrightarrow> a \<le> a' \<Longrightarrow> round_div a b \<le> round_div a' b"
  by (simp add: round_div_def zdiv_mono1)

lemma monitor_percent_mono:
  assumes "0 < polls" "i \<le> j"
  shows "\<exists>a b. monitor_percent i polls = Some a \<and> monitor_percent j polls = Some b
               \<and> 75 \<le> a \<and> a \<le> b"
proof -
  have "0 \<le> round_div (15 * int i) polls"
    using assms(1) by (simp add: round_div_nonneg)
  moreover have "round_div (15 * int i) polls \<le> round_div (15 * int j) polls"
    using assms by (simp add: round_div_mono)
  ultimately show ?thesis using assms(1) by (simp add: monitor_percent_def)
qed

lemma run_probe_outcomes:
  assumes ok: "\<And>s. log_write e s = None"
  shows "(\<exists>err. events (fst (run_probe cfg e)) = [Progress (Some 10), ErrorEvent err]
            \<and> snd (run_probe cfg e) = Exited 1)
   \<or> (\<exists>eps b s a c. events (fst (run_probe cfg e)) = completed_trace eps b s a c
            \<and> snd (run_probe cfg e) = Exited 0)"
proof (cases "normalizeEndpoint (server cfg) (port cfg)")
  case (Inl err)
  then show ?thesis using run_probe_config_error [OF ok Inl] by blast
next
  case (Inr url)
  show ?thesis
  proof (cases "discover e url")
    case (Inl err)
    then show ?thesis using run_probe_discovery_error [OF ok Inr Inl] by blast
  next
    case eps: (Inr eps)
    then show ?thesis using run_probe_completed [OF ok Inr eps] by blast
  qed
qed


lemma ceil_div_positive: "0 < d \<Longrightarrow> 1 \<le> ceil_div d 2000"
proof -
  assume "0 < d"
  then have "(- d) div 2000 < 0" by (simp add: neg_imp_zdiv_neg_iff)
  then show ?thesis by (simp add: ceil_div_def)
qed




text \<open>
  Claim C9. In every run, whatever fails in it, the progress values sent are finite
  numbers in non-decreasing order, and they are an initial part of the sequence 10,
  25, 45, 65, 75 followed by the fifteen values 75 + i of the monitoring; in a run in
  which no write to the log file fails they are 10 alone (the run fails in the first
  step) or the whole sequence. And for every positive number of polls the monitoring
  value 75 + round(i / polls * 15) is at least 75 and does not decrease when the tick
  index grows (the rounding is taken in exact arithmetic).
\<close>

theorem progress_monotone:
  "(\<exists>ps rest. percents (events (fst (run_probe cfg e))) = map Some ps \<and> sorted ps
         \<and> ps @ rest = [10, 25, 45, 65, 75] @ map (\<lambda>i. 75 + int i) [1 ..< 16]
         \<and> ((\<forall>s. log_write e s = None) \<longrightarrow> ps = [10] \<or> rest = []))
   \<and> (0 < polls \<and> i \<le> j \<longrightarrow>
        (\<exists>a b. monitor_percent i polls = Some a \<and> monitor_percent j polls = Some b
               \<and> 75 \<le> a \<and> a \<le> b))"
proof (intro conjI impI)
  from run_probe_percents [of cfg e]
  obtain n where n: "percents (events (fst (run_probe cfg e))) = map Some (take n checkpoints)"
    by blast
  have s: "sorted (take n checkpoints)"
    using sorted_checkpoints by (rule sorted_wrt_take)
  have c: "take n checkpoints @ drop n checkpoints
             = [10, 25, 45, 65, 75] @ map (\<lambda>i. 75 + int i) [1 ..< 16]"
    unfolding append_take_drop_id by (simp add: checkpoints_def del: upt_Suc)
  have l: "(\<forall>s. log_write e s = None) \<longrightarrow>
             take n checkpoints = [10] \<or> drop n checkpoints = []"
  proof
    assume "\<forall>s. log_write e s = None"
    then have ok: "\<And>s. log_write e s = None" by simp
    from run_probe_outcomes [OF ok, of cfg]
    show "take n checkpoints = [10] \<or> drop n checkpoints = []"
    proof
      assume "\<exists>err. events (fst (run_probe cfg e)) = [Progress (Some 10), ErrorEvent err]
                  \<and> snd (run_probe cfg e) = Exited 1"
      then have "percents (events (fst (run_probe cfg e))) = map Some [10]" by auto
      with n have "map Some (take n checkpoints) = map Some [10::int]" by simp
      then have "take n checkpoints = [10]" by (simp only: inj_map_eq_map [OF inj_Some])
      then show ?thesis by (rule disjI1)
    next
      assume "\<exists>eps b s a c. events (fst (run_probe cfg e)) = completed_trace eps b s a c
                  \<and> snd (run_probe cfg e) = Exited 0"
      then have "percents (events (fst (run_probe cfg e))) = map Some checkpoints"
        using percents_completed by auto
      with n have "map Some (take n checkpoints) = map Some checkpoints" by simp
      then have "take n checkpoints = checkpoints" by (simp only: inj_map_eq_map [OF inj_Some])
      then have "length checkpoints \<le> n"
        by (metis length_take min.absorb_iff1 min.commute)
      then have "drop n checkpoints = []" by simp
      then show ?thesis by (rule disjI2)
    qed
  qed
  from n s c l
  show "\<exists>ps rest. percents (events (fst (run_probe cfg e))) = map Some ps \<and> sorted ps
         \<and> ps @ rest = [10, 25, 45, 65, 75] @ map (\<lambda>i. 75 + int i) [1 ..< 16]
         \<and> ((\<forall>s. log_write e s = None) \<longrightarrow> ps = [10] \<or> rest = [])"
    by blast
next
  assume "0 < polls \<and> i \<le> j"
  then show "\<exists>a b. monitor_percent i polls = Some a \<and> monitor_percent j polls = Some b
               \<and> 75 \<le> a \<and> a \<le> b"
    using monitor_percent_mono [of polls i j] by simp
qed

text \<open>The theorem at a run against a server that answers, and at ticks 1 and 2 of
  three polls.\<close>

theorem progress_monotone_witness:
  "(0::int) < 3 \<and> (1::nat) \<le> 2
   \<and> monitor_percent 1 3 = Some 80 \<and> monitor_percent 2 3 = Some 85
   \<and> (\<forall>s. log_write answering_env s = None)
   \<and> (\<exists>ps. percents (events (fst (run_probe (sample_config ''10.0.0.5'') answering_env)))
             = map Some ps \<and> sorted ps)"
proof -
  have v: "monitor_percent 1 3 = Some 80" "monitor_percent 2 3 = Some 85"
    by (simp_all add: monitor_percent_def round_div_def)
  have l: "\<forall>s. log_write answering_env s = None" by (simp add: answering_env_def)
  from progress_monotone [of "sample_config ''10.0.0.5''" answering_env 3 1 2]
  have "\<exists>ps. percents (events (fst (run_probe (sample_config ''10.0.0.5'') answering_env)))
             = map Some ps \<and> sorted ps"
    by blast
  with v l show ?thesis by simp
qed

text \<open>
  Claim C10. When the target handed to the watcher is null or the empty string, then
  for every positive duration (the watcher is private to the module, and its one call
  passes \<^verbatim>\<open>30 * 1000\<close>) and every schedule and output of the polls the watcher runs
  ceil(durationMs / 2000) ticks, each of which starts a poll and sends a progress
  value, records no connection attempt, throws nothing and resolves with the empty
  array. And when the host extraction of the handler gives no target and the log
  lines of the monitoring step can be written, the step runs its fifteen polls, ends
  with the empty array and adds nothing to the errors and nothing to the warnings.
\<close>

theorem monitor_without_target:
  "(0 < d \<and> (ip = None \<or> ip = Some []) \<longrightarrow>
      found (monitorConnectionAttempts ip prt d sched) = []
      \<and> crashed (monitorConnectionAttempts ip prt d sched) = None
      \<and> ticks (monitorConnectionAttempts ip prt d sched) = nat (ceil_div d 2000)
      \<and> length (sent (monitorConnectionAttempts ip prt d sched)) = nat (ceil_div d 2000))
   \<and> (or_null (extractHostFromEndpoint (url_hostname e) (server cfg)) = None
       \<and> log_write e LogMonitoring = None \<and> log_write e LogMonitorResult = None \<longrightarrow>
      snd (monitor_step cfg e p) = Val []
      \<and> errors (fst (monitor_step cfg e p)) = errors p
      \<and> warnings (fst (monitor_step cfg e p)) = warnings p
      \<and> calls (fst (monitor_step cfg e p)) = calls p @ replicate 15 CallNetstat)"
proof (intro conjI impI)
  assume a: "0 < d \<and> (ip = None \<or> ip = Some [])"
  then have ip: "ip = None \<or> ip = Some []" by simp
  from a have m: "max 1 (nat (ceil_div d 2000)) = nat (ceil_div d 2000)"
    using ceil_div_positive [of d] by simp
  from ip show "found (monitorConnectionAttempts ip prt d sched) = []"
    by (rule monitor_no_target)
  show "crashed (monitorConnectionAttempts ip prt d sched) = None"
    by (rule monitor_result)
  show "ticks (monitorConnectionAttempts ip prt d sched) = nat (ceil_div d 2000)"
    using monitor_result(2) [of ip prt d sched] m by simp
  show "length (sent (monitorConnectionAttempts ip prt d sched)) = nat (ceil_div d 2000)"
    using monitor_result(4) [of ip prt d sched] m by simp
next
  assume h: "or_null (extractHostFromEndpoint (url_hostname e) (server cfg)) = None
       \<and> log_write e LogMonitoring = None \<and> log_write e LogMonitorResult = None"
  then have s: "monitor_step cfg e p =
     (p\<lparr>events := events p @ Progress (Some 75) # map (\<lambda>i. Progress (Some (75 + int i))) [1 ..< 16]
                    @ [ResultPartial (PConnections [])],
        calls := calls p @ replicate 15 CallNetstat\<rparr>, Val [])"
    using monitor_step_result [of e cfg p] by (simp add: monitor_no_target del: upt_Suc)
  show "snd (monitor_step cfg e p) = Val []"
    and "errors (fst (monitor_step cfg e p)) = errors p"
    and "warnings (fst (monitor_step cfg e p)) = warnings p"
    and "calls (fst (monitor_step cfg e p)) = calls p @ replicate 15 CallNetstat"
    unfolding s by simp_all
qed

text \<open>The theorem at a run whose server text is \<^verbatim>\<open>localhost:4840\<close>: the URL parser
  gives an empty host name, the target is null, and the polls, each of which sees a
  connection from 10.0.0.5, record nothing.\<close>

theorem monitor_without_target_witness:
  "(0::int) < 30000
   \<and> found (monitorConnectionAttempts None (PortNum 4840) 30000 (netstat_polls answering_env)) = []
   \<and> ticks (monitorConnectionAttempts None (PortNum 4840) 30000 (netstat_polls answering_env))
       = 15
   \<and> or_null (extractHostFromEndpoint (url_hostname answering_env)
        (server (sample_config ''localhost:4840''))) = None
   \<and> log_write answering_env LogMonitoring = None
   \<and> log_write answering_env LogMonitorResult = None
   \<and> snd (monitor_step (sample_config ''localhost:4840'') answering_env
        \<lparr>events = [], errors = [], warnings = [], calls = [], logged_comparison = None\<rparr>)
       = Val []
   \<and> warnings (fst (monitor_step (sample_config ''localhost:4840'') answering_env
        \<lparr>events = [], errors = [], warnings = [], calls = [], logged_comparison = None\<rparr>))
       = []"
proof -
  have h: "or_null (extractHostFromEndpoint (url_hostname answering_env)
             (server (sample_config ''localhost:4840''))) = None"
    by (simp add: answering_env_def sample_config_def extractHostFromEndpoint_def or_null_def)
  have l: "log_write answering_env LogMonitoring = None"
    "log_write answering_env LogMonitorResult = None"
    by (simp_all add: answering_env_def)
  have c: "nat (ceil_div 30000 2000) = 15" by (simp add: ceil_div_30000)
  from monitor_without_target
      [of 30000 None "PortNum 4840" "netstat_polls answering_env" answering_env
          "sample_config ''localhost:4840''"
          "\<lparr>events = [], errors = [], warnings = [], calls = [], logged_comparison = None\<rparr>"]
    h l c
  show ?thesis by simp
qed

end
